theory Spec2Isabelle
  imports Complex_Main "HOL-Library.Monad_Syntax"
begin

section \<open>Python and numpy values\<close>

text \<open>
  Exceptions are values. A warning issued with \<^verbatim>\<open>warn\<close> is an entry of a list that
  the operation returns beside its result.
\<close>

datatype error =
  TypeError | ValueError | IndexError | AttributeError | RecursionError | OverflowError

datatype warning =
    No_min_length
  | Removed_duplicates
  | Ratio_ignored
  | Default_sampling
  | Truncated_series

type_synonym series = "real list"

text \<open>
  An element of a Python list handed over as \<^verbatim>\<open>timestamps\<close>: an integer (which
  \<^verbatim>\<open>np.array\<close> stores as \<^verbatim>\<open>np.int64\<close>, or \<^verbatim>\<open>np.int32\<close> on some platforms) or a
  value of any other kind.
\<close>

datatype py_elem = PyInt int | PyOther

text \<open>
  The attribute \<^verbatim>\<open>timestamps\<close>: \<^verbatim>\<open>None\<close>, a Python list, a numpy array whose
  elements are \<^verbatim>\<open>np.int32\<close>/\<^verbatim>\<open>np.int64\<close>, a numpy array of another element type
  (only its length matters), or an object that is neither a list nor an array.
\<close>

datatype ts_arg =
    TsNone
  | TsList "py_elem list"
  | TsIntArray "int list"
  | TsOtherArray nat
  | TsOther

text \<open>
  The attribute \<^verbatim>\<open>sampling_ratio\<close>: \<^verbatim>\<open>None\<close>, a \<^verbatim>\<open>float\<close> or \<^verbatim>\<open>int\<close> with its
  exact value (the literal \<^verbatim>\<open>0.1\<close> is the double \<open>3602879701896397 / 2 ^ 55\<close>), the float
  \<^verbatim>\<open>nan\<close>, or an object of another type.
\<close>

datatype ratio_arg = SrNone | SrNum real | SrNaN | SrOther

text \<open>
  \<^verbatim>\<open>np.array(list)\<close>: an array has one element type. A non-empty list of integers
  becomes an integer array; an empty list becomes an empty float array, and a list with
  an element of another kind becomes an array none of whose elements is an
  \<^verbatim>\<open>np.int32\<close>/\<^verbatim>\<open>np.int64\<close>.
\<close>

fun py_ints :: "py_elem list \<Rightarrow> int list option" where
  "py_ints [] = Some []"
| "py_ints (PyInt k # es) = map_option (\<lambda>ks. k # ks) (py_ints es)"
| "py_ints (PyOther # es) = None"

definition np_array :: "py_elem list \<Rightarrow> ts_arg" where
  "np_array es =
     (case py_ints es of
        Some ks \<Rightarrow> if ks = [] then TsOtherArray 0 else TsIntArray ks
      | None \<Rightarrow> TsOtherArray (length es))"

text \<open>\<^verbatim>\<open>np.unique\<close>: the sorted distinct elements.\<close>

definition np_unique :: "int list \<Rightarrow> int list" where
  "np_unique xs = sort (remdups xs)"

text \<open>\<^verbatim>\<open>int(x)\<close> on a float truncates toward zero.\<close>

definition py_int :: "real \<Rightarrow> int" where
  "py_int x = (if 0 \<le> x then \<lfloor>x\<rfloor> else \<lceil>x\<rceil>)"

text \<open>
  \<^verbatim>\<open>int(a / b)\<close> for integers \<^verbatim>\<open>a\<close> and \<^verbatim>\<open>b\<close>: the true quotient, truncated toward
  zero. (The quotient is a float in the source; for series lengths, far below
  \<^verbatim>\<open>2**53\<close>, its truncation is that of the exact quotient.)
\<close>

definition py_int_truediv :: "int \<Rightarrow> int \<Rightarrow> int" where
  "py_int_truediv a b = sgn a * sgn b * (\<bar>a\<bar> div \<bar>b\<bar>)"

text \<open>\<^verbatim>\<open>X.shape[1]\<close> of the rectangular array that \<^verbatim>\<open>check_X_y\<close> returns.\<close>

definition shape1 :: "series list \<Rightarrow> int" where
  "shape1 X = (case X of [] \<Rightarrow> 0 | s # _ \<Rightarrow> int (length s))"

text \<open>\<^verbatim>\<open>serie[:l]\<close>: a negative bound counts from the end.\<close>

definition py_take :: "int \<Rightarrow> 'a list \<Rightarrow> 'a list" where
  "py_take l s = (if 0 \<le> l then take (nat l) s else take (length s - nat (- l)) s)"

section \<open>BaseTimeClassifier\<close>

text \<open>
  The attributes of a \<^verbatim>\<open>BaseTimeClassifier\<close>. \<^verbatim>\<open>nb_classifiers\<close> is not set by
  \<^verbatim>\<open>__init__\<close>, so it may be absent (\<open>None\<close>). \<open>classes'\<close> is the attribute \<^verbatim>\<open>classes_\<close>.
  \<open>classifiers\<close> are the per-checkpoint
  classifiers that \<^verbatim>\<open>_fit\<close> trains; \<open>'c\<close> is the type of a trained classifier.
\<close>

record 'c time_classifier =
  timestamps :: ts_arg
  sampling_ratio :: ratio_arg
  min_length :: "int option"
  max_length :: "int option"
  classes' :: "int list option"
  class_prior :: "real list option"
  nb_classifiers :: "int option"
  classifiers :: "'c list"

text \<open>What a call leaves behind: the object, the warnings, and the exception if one was raised.\<close>

record 'c outcome =
  state :: "'c time_classifier"
  warned :: "warning list"
  raised :: "error option"

text \<open>\<^verbatim>\<open>__init__(timestamps, sampling_ratio, min_length)\<close>.\<close>

definition init :: "ts_arg \<Rightarrow> ratio_arg \<Rightarrow> int option \<Rightarrow> 'c time_classifier" where
  "init ts sr mn =
     \<lparr>timestamps = ts, sampling_ratio = sr, min_length = mn, max_length = None,
      classes' = None, class_prior = None, nb_classifiers = None, classifiers = []\<rparr>"

text \<open>
  Lines 38--40 of \<^verbatim>\<open>fit\<close>: \<^verbatim>\<open>np.unique(y)\<close> and the empirical frequency of each class.
\<close>

definition prior_of :: "int list \<Rightarrow> real list" where
  "prior_of y = map (\<lambda>c. real (count_list y c) / real (length y)) (np_unique y)"

text \<open>
  Lines 43--63: the checks on an explicit \<^verbatim>\<open>timestamps\<close> argument, after a list has
  been turned into an array. The loop raises at the first element that is not an
  integer or is negative; an array of another element type fails at its first element.
\<close>

definition check_timestamps :: "'c time_classifier \<Rightarrow> 'c outcome" where
  "check_timestamps self =
     (let self = (case timestamps self of
                    TsList es \<Rightarrow> self\<lparr>timestamps := np_array es\<rparr>
                  | _ \<Rightarrow> self)
      in case timestamps self of
           TsOther \<Rightarrow> \<lparr>state = self, warned = [], raised = Some TypeError\<rparr>
         | TsOtherArray n \<Rightarrow>
             \<lparr>state = self, warned = [],
              raised = Some (if n = 0 then ValueError else TypeError)\<rparr>
         | TsIntArray ts \<Rightarrow>
             if ts = [] then \<lparr>state = self, warned = [], raised = Some ValueError\<rparr>
             else if list_ex (\<lambda>t. t < 0) ts
               then \<lparr>state = self, warned = [], raised = Some ValueError\<rparr>
             else
               let (self, w1) =
                     (if length (np_unique ts) \<noteq> length ts
                      then (self\<lparr>timestamps := TsIntArray (np_unique ts)\<rparr>, [Removed_duplicates])
                      else (self, []));
                   (self, w2) =
                     (if sampling_ratio self \<noteq> SrNone
                      then (self\<lparr>sampling_ratio := SrNone\<rparr>, [Ratio_ignored])
                      else (self, []))
               in \<lparr>state = self, warned = w1 @ w2, raised = None\<rparr>
         | _ \<Rightarrow> \<lparr>state = self, warned = [], raised = None\<rparr>)"

text \<open>
  The float arithmetic of line 74. \<^verbatim>\<open>1/self.sampling_ratio\<close> is a division of
  doubles: the exact quotient rounded to the nearest number with a 53-bit significand,
  ties to the even significand, and \<^verbatim>\<open>inf\<close> once the rounded value reaches \<open>2 ^ 1024\<close>.
  Line 70 lets only ratios in \<open>(0, 1]\<close> through, so the quotient is at least 1 and
  never subnormal.
\<close>

text \<open>The position of the leading bit of a positive integer.\<close>

fun ilog2 :: "nat \<Rightarrow> nat" where
  "ilog2 n = (if n < 2 then 0 else Suc (ilog2 (n div 2)))"

declare ilog2.simps [simp del]

text \<open>Rounding to the nearest integer, a tie going to the even one.\<close>

definition round_half_even :: "real \<Rightarrow> int" where
  "round_half_even x =
     (let f = \<lfloor>x\<rfloor>; d = x - of_int f
      in if d < 1/2 then f else if 1/2 < d then f + 1 else if even f then f else f + 1)"

text \<open>
  The double nearest to a real \<open>x \<ge> 1\<close>: with \<open>2 ^ e \<le> x < 2 ^ (e + 1)\<close> the doubles
  around \<open>x\<close> are the multiples of \<open>2 ^ (e - 52)\<close>. \<open>None\<close> is \<^verbatim>\<open>inf\<close>.
\<close>

definition float_round :: "real \<Rightarrow> real option" where
  "float_round x =
     (let e = ilog2 (nat \<lfloor>x\<rfloor>);
          n = round_half_even (if e \<le> 52 then x * 2 ^ (52 - e) else x / 2 ^ (e - 52));
          q = (if e \<le> 52 then of_int n / 2 ^ (52 - e) else of_int n * 2 ^ (e - 52))
      in if 2 ^ 1024 \<le> q then None else Some q)"

text \<open>\<^verbatim>\<open>1/self.sampling_ratio\<close> for a ratio in \<open>(0, 1]\<close>.\<close>

definition float_div_one :: "real \<Rightarrow> real option" where
  "float_div_one r = float_round (1 / r)"

text \<open>
  Lines 65--74: the checks on \<^verbatim>\<open>sampling_ratio\<close> and the classifier count taken from it.
  A \<^verbatim>\<open>nan\<close> passes both comparisons and makes \<^verbatim>\<open>int(1/nan)\<close> raise \<^verbatim>\<open>ValueError\<close>;
  an infinite quotient makes \<^verbatim>\<open>int\<close> raise \<^verbatim>\<open>OverflowError\<close>, which also ends the call
  when \<^verbatim>\<open>np.minimum\<close> refuses an argument.
\<close>

text \<open>
  \<^verbatim>\<open>np.minimum\<close> of two Python integers: numpy takes them as \<^verbatim>\<open>int64\<close> and returns the
  smaller one. An integer that does not fit \<^verbatim>\<open>int64\<close> is refused with \<^verbatim>\<open>OverflowError\<close>
  (\<open>None\<close>) by numpy 2; earlier versions of numpy treat such an integer in other ways, and
  the properties below are stated for integers within \<^verbatim>\<open>int64\<close>.
\<close>

definition int64 :: "int \<Rightarrow> bool" where
  "int64 a \<longleftrightarrow> - (2 ^ 63) \<le> a \<and> a < 2 ^ 63"

definition np_minimum :: "int \<Rightarrow> int \<Rightarrow> int option" where
  "np_minimum a b = (if int64 a \<and> int64 b then Some (min a b) else None)"

text \<open>
  \<^verbatim>\<open>np.minimum(int(1/ratio), max_length - min_length + 1)\<close>; \<open>None\<close> when \<^verbatim>\<open>int\<close> or
  \<^verbatim>\<open>np.minimum\<close> raises \<^verbatim>\<open>OverflowError\<close>.
\<close>

definition ratio_count :: "real \<Rightarrow> int \<Rightarrow> int \<Rightarrow> int option" where
  "ratio_count r mx mn =
     (case float_div_one r of
        None \<Rightarrow> None
      | Some q \<Rightarrow> np_minimum (py_int q) (mx - mn + 1))"

definition check_sampling_ratio :: "'c time_classifier \<Rightarrow> int \<Rightarrow> int \<Rightarrow> 'c outcome" where
  "check_sampling_ratio self mx mn =
     (case sampling_ratio self of
        SrOther \<Rightarrow> \<lparr>state = self, warned = [], raised = Some TypeError\<rparr>
      | SrNaN \<Rightarrow> \<lparr>state = self, warned = [], raised = Some ValueError\<rparr>
      | SrNum r \<Rightarrow>
          if r \<le> 0 \<or> r > 1 then \<lparr>state = self, warned = [], raised = Some ValueError\<rparr>
          else
            (case ratio_count r mx mn of
               None \<Rightarrow> \<lparr>state = self, warned = [], raised = Some OverflowError\<rparr>
             | Some nb \<Rightarrow>
                 \<lparr>state = self\<lparr>nb_classifiers := Some nb\<rparr>, warned = [], raised = None\<rparr>)
      | SrNone \<Rightarrow>
          \<lparr>state = self\<lparr>nb_classifiers := Some 20\<rparr>, warned = [Default_sampling],
           raised = None\<rparr>)"

text \<open>Lines 43--79: the \<^verbatim>\<open>if\<close>/\<^verbatim>\<open>elif\<close>/\<^verbatim>\<open>else\<close> over the two arguments.\<close>

definition check_config :: "'c time_classifier \<Rightarrow> int \<Rightarrow> int \<Rightarrow> 'c outcome" where
  "check_config self mx mn =
     (if timestamps self \<noteq> TsNone then check_timestamps self
      else check_sampling_ratio self mx mn)"

text \<open>
  Lines 82--85: the lengths \<^verbatim>\<open>int((max_length - min_length) * i / nb_classifiers) + min_length\<close>
  for \<^verbatim>\<open>i\<close> in \<^verbatim>\<open>range(1, nb_classifiers + 1)\<close>.
\<close>

definition derived_lengths :: "int \<Rightarrow> int \<Rightarrow> int \<Rightarrow> int list" where
  "derived_lengths mx mn nb = map (\<lambda>i. py_int_truediv ((mx - mn) * i) nb + mn) [1..nb]"

text \<open>
  Lines 81--88. \<^verbatim>\<open>list(set(...))\<close> keeps one copy of each length, in an order that the
  sort of line 91 replaces. Reading \<^verbatim>\<open>self.nb_classifiers\<close> before it was ever assigned
  raises \<^verbatim>\<open>AttributeError\<close>.
\<close>

definition derive_timestamps :: "'c time_classifier \<Rightarrow> int \<Rightarrow> int \<Rightarrow> 'c outcome" where
  "derive_timestamps self mx mn =
     (if timestamps self = TsNone then
        (case nb_classifiers self of
           None \<Rightarrow> \<lparr>state = self, warned = [], raised = Some AttributeError\<rparr>
         | Some nb \<Rightarrow>
             let ts = remdups (derived_lengths mx mn nb)
             in \<lparr>state = self\<lparr>timestamps := TsIntArray ts,
                                nb_classifiers := Some (int (length ts))\<rparr>,
                 warned = [], raised = None\<rparr>)
      else \<lparr>state = self, warned = [], raised = None\<rparr>)"

text \<open>Line 91: \<^verbatim>\<open>np.sort\<close> of the integer array.\<close>

definition sort_timestamps :: "'c time_classifier \<Rightarrow> 'c time_classifier" where
  "sort_timestamps self =
     (case timestamps self of
        TsIntArray ts \<Rightarrow> self\<lparr>timestamps := TsIntArray (sort ts)\<rparr>
      | _ \<Rightarrow> self)"

text \<open>
  Modelled from the spec: \<^verbatim>\<open>_fit\<close> is abstract in \<^verbatim>\<open>BaseTimeClassifier\<close> and the
  concrete ensemble is missing. It trains one classifier per checkpoint on \<^verbatim>\<open>X\<close>
  truncated to that checkpoint; \<open>train\<close> stands for fitting the base classifier.
\<close>

definition fit_classifiers ::
  "(series list \<Rightarrow> int list \<Rightarrow> 'c) \<Rightarrow> 'c time_classifier \<Rightarrow> series list \<Rightarrow> int list
     \<Rightarrow> 'c time_classifier" where
  "fit_classifiers train self X y =
     (case timestamps self of
        TsIntArray ts \<Rightarrow> self\<lparr>classifiers := map (\<lambda>l. train (map (py_take l) X) y) ts\<rparr>
      | _ \<Rightarrow> self)"

text \<open>
  \<^verbatim>\<open>BaseTimeClassifier.fit(X, y)\<close>, from the point where \<^verbatim>\<open>check_X_y\<close> has returned.
  The assignments of lines 33--40 come before the checks of the configuration.
\<close>

text \<open>Lines 34--36: the minimum length in force, 1 when none was given.\<close>

definition effective_min_length :: "'c time_classifier \<Rightarrow> int" where
  "effective_min_length self = (case min_length self of None \<Rightarrow> 1 | Some m \<Rightarrow> m)"

definition fit ::
  "(series list \<Rightarrow> int list \<Rightarrow> 'c) \<Rightarrow> 'c time_classifier \<Rightarrow> series list \<Rightarrow> int list
     \<Rightarrow> 'c outcome" where
  "fit train self X y =
     (let mx = shape1 X;
          self = self\<lparr>max_length := Some mx\<rparr>;
          w0 = (if min_length self = None then [No_min_length] else []);
          mn = effective_min_length self;
          self = self\<lparr>min_length := Some mn\<rparr>;
          self = self\<lparr>classes' := Some (np_unique y), class_prior := Some (prior_of y)\<rparr>;
          c = check_config self mx mn
      in if raised c \<noteq> None then c\<lparr>warned := w0 @ warned c\<rparr>
         else
           let d = derive_timestamps (state c) mx mn
           in if raised d \<noteq> None then d\<lparr>warned := w0 @ warned c @ warned d\<rparr>
              else \<lparr>state = fit_classifiers train (sort_timestamps (state d)) X y,
                    warned = w0 @ warned c @ warned d, raised = None\<rparr>)"

text \<open>
  The classifier count that lines 74 and 79 assign when no \<^verbatim>\<open>timestamps\<close> were given:
  the one taken from the sampling ratio, or the default 20. \<open>None\<close> when line 74 raises
  \<^verbatim>\<open>OverflowError\<close>.
\<close>

definition planned_count :: "'c time_classifier \<Rightarrow> int \<Rightarrow> int \<Rightarrow> int option" where
  "planned_count self mx mn =
     (case sampling_ratio self of SrNum r \<Rightarrow> ratio_count r mx mn | _ \<Rightarrow> Some 20)"

text \<open>
  The count and the lengths as the specification words them: \<^verbatim>\<open>round(1/ratio)\<close> (Python's
  \<^verbatim>\<open>round\<close> of the float quotient, a tie going to the even integer), and
  \<^verbatim>\<open>floor((max_length - min_length) * i / count) + min_length\<close> for \<^verbatim>\<open>i = 1..count\<close>.
\<close>

definition spec_ratio_count :: "real \<Rightarrow> int \<Rightarrow> int \<Rightarrow> int option" where
  "spec_ratio_count r mx mn =
     (case float_div_one r of
        None \<Rightarrow> None
      | Some q \<Rightarrow> np_minimum (round_half_even q) (mx - mn + 1))"

definition spec_lengths :: "int \<Rightarrow> int \<Rightarrow> int \<Rightarrow> int list" where
  "spec_lengths mx mn nb = map (\<lambda>i. ((mx - mn) * i) div nb + mn) [1..nb]"

text \<open>
  The arguments that \<^verbatim>\<open>fit\<close> is meant to reject: \<^verbatim>\<open>timestamps\<close> that are not a
  non-empty list or array of non-negative integers, and a \<^verbatim>\<open>sampling_ratio\<close> that is
  not a number in \<open>(0, 1]\<close>.
\<close>

definition invalid_timestamps :: "ts_arg \<Rightarrow> bool" where
  "invalid_timestamps a =
     (case a of
        TsNone \<Rightarrow> False
      | TsList es \<Rightarrow>
          (case py_ints es of None \<Rightarrow> True | Some ks \<Rightarrow> ks = [] \<or> list_ex (\<lambda>t. t < 0) ks)
      | TsIntArray ks \<Rightarrow> ks = [] \<or> list_ex (\<lambda>t. t < 0) ks
      | TsOtherArray n \<Rightarrow> True
      | TsOther \<Rightarrow> True)"

definition invalid_ratio :: "ratio_arg \<Rightarrow> bool" where
  "invalid_ratio a =
     (case a of SrNone \<Rightarrow> False | SrNum r \<Rightarrow> r \<le> 0 \<or> 1 < r | SrNaN \<Rightarrow> True | SrOther \<Rightarrow> True)"

text \<open>A training function for concrete runs: the trained classifier carries no data.\<close>

definition no_train :: "series list \<Rightarrow> int list \<Rightarrow> unit" where
  "no_train X y = ()"

subsection \<open>Grouping the series of a prediction call by length\<close>

text \<open>
  \<^verbatim>\<open>min(iterable, key=..., default=None)\<close>: the first element whose key is smallest,
  \<^verbatim>\<open>None\<close> for an empty iterable.
\<close>

fun py_min_key :: "('a \<Rightarrow> int) \<Rightarrow> 'a list \<Rightarrow> 'a option" where
  "py_min_key key [] = None"
| "py_min_key key (x # xs) =
     (case py_min_key key xs of
        None \<Rightarrow> Some x
      | Some m \<Rightarrow> if key m < key x then Some m else Some x)"

text \<open>Lines 140--141: the checkpoint nearest to \<open>len\<close> among those not above it.\<close>

definition nearest_timestamp :: "int list \<Rightarrow> int \<Rightarrow> int option" where
  "nearest_timestamp ts len = py_min_key (\<lambda>x. len - x) (filter (\<lambda>x. x \<le> len) ts)"

text \<open>
  Lines 136--144, the first half of the loop body of \<^verbatim>\<open>_grouped_by_length\<close>: the key
  under which a series is filed, the series as filed, and whether \<^verbatim>\<open>truncated\<close> was set.
  The key is \<^verbatim>\<open>None\<close> when \<^verbatim>\<open>min\<close> returned its default. \<^verbatim>\<open>self.timestamps[0]\<close> on an
  empty array raises \<^verbatim>\<open>IndexError\<close>; it is read only when the length is not a checkpoint.
  \<^verbatim>\<open>if length:\<close> holds for an integer other than 0.
\<close>

definition place_serie :: "int list \<Rightarrow> 'a list \<Rightarrow> error + (int option \<times> 'a list \<times> bool)" where
  "place_serie ts serie =
     (let len = int (length serie)
      in if len \<in> set ts then Inr (Some len, serie, False)
         else (case ts of
                 [] \<Rightarrow> Inl IndexError
               | t0 # _ \<Rightarrow>
                   if len > t0 then
                     (case nearest_timestamp ts len of
                        None \<Rightarrow> Inr (None, serie, False)
                      | Some l \<Rightarrow>
                          if l = 0 then Inr (Some l, serie, False)
                          else Inr (Some l, py_take l serie, True))
                   else Inr (Some len, serie, False)))"

text \<open>
  Lines 146--149: \<^verbatim>\<open>grouped_X\<close> is a dictionary from key to the list of series filed
  under it, kept in insertion order.
\<close>

fun dict_append :: "'k \<Rightarrow> 'v \<Rightarrow> ('k \<times> 'v list) list \<Rightarrow> ('k \<times> 'v list) list" where
  "dict_append k v [] = [(k, [v])]"
| "dict_append k v ((k', vs) # d) =
     (if k = k' then (k', vs @ [v]) # d else (k', vs) # dict_append k v d)"

fun grouped_loop ::
  "int list \<Rightarrow> 'a list list \<Rightarrow> bool \<Rightarrow> (int option \<times> 'a list list) list
     \<Rightarrow> error + ((int option \<times> 'a list list) list \<times> bool)" where
  "grouped_loop ts [] truncated grouped_X = Inr (grouped_X, truncated)"
| "grouped_loop ts (serie # X) truncated grouped_X =
     (case place_serie ts serie of
        Inl e \<Rightarrow> Inl e
      | Inr (k, s, tr) \<Rightarrow> grouped_loop ts X (truncated \<or> tr) (dict_append k s grouped_X))"

text \<open>
  \<^verbatim>\<open>_grouped_by_length(X)\<close> with the fitted checkpoints \<open>ts\<close>: the dictionary and the
  warnings issued (lines 151--152 warn once, after the loop).
\<close>

definition grouped_by_length ::
  "int list \<Rightarrow> 'a list list \<Rightarrow> error + ((int option \<times> 'a list list) list \<times> warning list)" where
  "grouped_by_length ts X =
     (case grouped_loop ts X False [] of
        Inl e \<Rightarrow> Inl e
      | Inr (grouped_X, truncated) \<Rightarrow>
          Inr (grouped_X, if truncated then [Truncated_series] else []))"

subsection \<open>Prediction with the grouped series\<close>

type_synonym proba = "real option list"

text \<open>
  A class-probability vector is a list of floats; \<open>None\<close> stands for \<^verbatim>\<open>nan\<close>.

  \<^verbatim>\<open>np.argmax\<close> of a vector: the index of the first \<^verbatim>\<open>nan\<close> if there is one, else of
  the first largest entry; \<^verbatim>\<open>ValueError\<close> (here \<open>None\<close>) on an empty vector. The
  helper scans on from position \<open>i\<close> with the best index and value so far.
\<close>

fun argmax_scan :: "proba \<Rightarrow> nat \<Rightarrow> nat \<Rightarrow> real \<Rightarrow> nat" where
  "argmax_scan [] i bi bv = bi"
| "argmax_scan (None # xs) i bi bv = i"
| "argmax_scan (Some x # xs) i bi bv =
     (if bv < x then argmax_scan xs (Suc i) i x else argmax_scan xs (Suc i) bi bv)"

fun np_argmax :: "proba \<Rightarrow> nat option" where
  "np_argmax [] = None"
| "np_argmax (None # xs) = Some 0"
| "np_argmax (Some x # xs) = Some (argmax_scan xs 1 0 x)"

text \<open>\<^verbatim>\<open>argmax(axis=-1)\<close> over the rows of a two-dimensional array.\<close>

definition np_argmax_rows :: "proba list \<Rightarrow> nat list option" where
  "np_argmax_rows ps = those (map np_argmax ps)"

text \<open>The position of the first occurrence of a value, if any.\<close>

fun index_of :: "'a list \<Rightarrow> 'a \<Rightarrow> nat option" where
  "index_of [] v = None"
| "index_of (x # xs) v = (if x = v then Some 0 else map_option Suc (index_of xs v))"

text \<open>The configured policy for a series that no classifier was fitted for.\<close>

datatype short_policy = Fall_back_to_prior | Raise_on_short

text \<open>
  Modelled from the spec: \<^verbatim>\<open>_predict_proba\<close> is abstract in \<^verbatim>\<open>BaseTimeClassifier\<close> and
  the concrete ensemble is missing. Each group is dispatched to the classifier trained
  for its length (\<open>clf j\<close> is the classifier of the \<open>j\<close>-th checkpoint); a group whose
  length has no classifier falls back to the class prior or raises, per configured
  policy.
\<close>

definition predict_proba_group ::
  "short_policy \<Rightarrow> (nat \<Rightarrow> 'a list \<Rightarrow> proba) \<Rightarrow> int list \<Rightarrow> real list
     \<Rightarrow> int option \<times> 'a list list \<Rightarrow> error + (int option \<times> proba list)" where
  "predict_proba_group pol clf ts prior g =
     (case g of (k, ss) \<Rightarrow>
        (case (case k of None \<Rightarrow> None | Some l \<Rightarrow> index_of ts l) of
           Some j \<Rightarrow> Inr (k, map (clf j) ss)
         | None \<Rightarrow>
             (case pol of
                Fall_back_to_prior \<Rightarrow> Inr (k, map (\<lambda>_. map Some prior) ss)
              | Raise_on_short \<Rightarrow> Inl ValueError)))"

text \<open>
  Modelled from the spec: the same \<^verbatim>\<open>_predict_proba\<close> over the whole dictionary, group
  after group; the first group that raises ends the call.
\<close>

fun predict_proba_groups ::
  "short_policy \<Rightarrow> (nat \<Rightarrow> 'a list \<Rightarrow> proba) \<Rightarrow> int list \<Rightarrow> real list
     \<Rightarrow> (int option \<times> 'a list list) list \<Rightarrow> error + (int option \<times> proba list) list" where
  "predict_proba_groups pol clf ts prior [] = Inr []"
| "predict_proba_groups pol clf ts prior (g # gs) =
     (case predict_proba_group pol clf ts prior g of
        Inl e \<Rightarrow> Inl e
      | Inr r \<Rightarrow>
          (case predict_proba_groups pol clf ts prior gs of
             Inl e \<Rightarrow> Inl e
           | Inr rs \<Rightarrow> Inr (r # rs)))"

text \<open>
  \<^verbatim>\<open>predict_proba(X)\<close> (lines 97--104), from the point where \<^verbatim>\<open>check_X_y\<close> has
  returned: the probabilities of each group, under the group's key.
\<close>

definition predict_proba ::
  "short_policy \<Rightarrow> (nat \<Rightarrow> 'a list \<Rightarrow> proba) \<Rightarrow> int list \<Rightarrow> real list \<Rightarrow> 'a list list
     \<Rightarrow> error + (int option \<times> proba list) list" where
  "predict_proba pol clf ts prior X =
     (case grouped_by_length ts X of
        Inl e \<Rightarrow> Inl e
      | Inr (grouped_X, w) \<Rightarrow> predict_proba_groups pol clf ts prior grouped_X)"

text \<open>\<^verbatim>\<open>predict(X)\<close> (line 129): the \<^verbatim>\<open>argmax\<close> of each probability vector.\<close>

fun argmax_groups ::
  "(int option \<times> proba list) list \<Rightarrow> error + (int option \<times> nat list) list" where
  "argmax_groups [] = Inr []"
| "argmax_groups ((k, ps) # gs) =
     (case np_argmax_rows ps of
        None \<Rightarrow> Inl ValueError
      | Some cs \<Rightarrow>
          (case argmax_groups gs of Inl e \<Rightarrow> Inl e | Inr rs \<Rightarrow> Inr ((k, cs) # rs)))"

definition predict ::
  "short_policy \<Rightarrow> (nat \<Rightarrow> 'a list \<Rightarrow> proba) \<Rightarrow> int list \<Rightarrow> real list \<Rightarrow> 'a list list
     \<Rightarrow> error + (int option \<times> nat list) list" where
  "predict pol clf ts prior X =
     (case predict_proba pol clf ts prior X of
        Inl e \<Rightarrow> Inl e
      | Inr groups \<Rightarrow> argmax_groups groups)"

section \<open>EarlyClassifier: prediction and scoring\<close>

text \<open>
  The collaborators of \<^verbatim>\<open>EarlyClassifier\<close> are outside this development and enter as
  functions. Arrays hold one entry per series; \<open>zip\<close> pairs them position by position
  (numpy raises where the shapes differ, \<open>zip\<close> would drop the surplus, so the
  properties below assume the shapes agree). An operation returns \<open>None\<close> when it
  raises.

  The second argument of the trigger model's \<^verbatim>\<open>predict\<close>: the probabilities at the
  current length, or their history over the checkpoints so far.
\<close>

datatype probas_arg = Current "proba list" | Past "proba list list"

text \<open>
  The array \<^verbatim>\<open>triggers\<close> that the trigger model's \<^verbatim>\<open>predict\<close> returns is an object, and
  line 312 of \<^verbatim>\<open>score\<close> writes into it. The boolean arrays that a trigger model keeps
  live in a store, by address. What \<^verbatim>\<open>predict\<close> returns is an array built for the call,
  which nothing else refers to, or the array kept at an address.
\<close>

type_synonym store = "nat \<Rightarrow> bool list"

datatype trig_ref = Fresh "bool list" | Kept nat

text \<open>The array behind a reference.\<close>

definition deref :: "store \<Rightarrow> trig_ref \<Rightarrow> bool list" where
  "deref hp r = (case r of Fresh bs \<Rightarrow> bs | Kept a \<Rightarrow> hp a)"

text \<open>
  \<^verbatim>\<open>triggers[np.where(past_trigger == True)] = False\<close>, an assignment in place: a kept
  array changes in the store.
\<close>

definition clear_where :: "store \<Rightarrow> trig_ref \<Rightarrow> bool list \<Rightarrow> trig_ref \<times> store" where
  "clear_where hp r past =
     (let bs = map (\<lambda>(tr, p). if p then False else tr) (zip (deref hp r) past)
      in case r of Fresh old \<Rightarrow> (Fresh bs, hp) | Kept a \<Rightarrow> (Kept a, hp(a := bs)))"

text \<open>
  A trigger model: its capability flags, \<^verbatim>\<open>predict(X, probas)\<close> returning
  \<^verbatim>\<open>(triggers, costs)\<close>, and, for a model that works without classifiers,
  \<^verbatim>\<open>predict(X)\<close> returning \<^verbatim>\<open>(classes, triggers, t_star)\<close>, where a class may be
  \<^verbatim>\<open>nan\<close>. \<^verbatim>\<open>predict\<close> reads the arrays that the model keeps (the first argument) and
  leaves them as they are.
\<close>

record trigger_model =
  require_classifiers :: bool
  require_past_probas :: bool
  alter_classifiers :: bool
  tm_predict :: "store \<Rightarrow> series list \<Rightarrow> probas_arg \<Rightarrow> trig_ref \<times> real list list"
  tm_predict_alone :: "store \<Rightarrow> series list \<Rightarrow> int option list \<times> trig_ref \<times> int list"

text \<open>
  The fitted ensemble as the orchestrator uses it: its checkpoints
  (\<^verbatim>\<open>timestamps\<close>, which \<^verbatim>\<open>EarlyClassifier.models_input_lengths\<close> returns and line 326
  reads as \<^verbatim>\<open>models_input_lengths\<close>), \<^verbatim>\<open>class_prior\<close>, \<^verbatim>\<open>predict_proba\<close> and
  \<^verbatim>\<open>predict_past_proba\<close>.
\<close>

record chrono_classifiers =
  models_input_lengths :: "int list"
  cc_class_prior :: "real list"
  cc_predict_proba :: "series list \<Rightarrow> proba list"
  cc_predict_past_proba :: "series list \<Rightarrow> proba list list"

text \<open>
  The attributes of a fitted \<^verbatim>\<open>EarlyClassifier\<close> that prediction and scoring read.
  \<open>cost_matrices self t p c\<close> is \<^verbatim>\<open>self.cost_matrices[t][p][c]\<close>; there is one matrix per
  checkpoint, so \<^verbatim>\<open>self.cost_matrices[-1]\<close> is the one of the last checkpoint.
\<close>

record early_classifier =
  chronological_classifiers :: chrono_classifiers
  new_chronological_classifiers :: chrono_classifiers
  trigger_model :: trigger_model
  cost_matrices :: "nat \<Rightarrow> int \<Rightarrow> int \<Rightarrow> real"

text \<open>\<^verbatim>\<open>xs[i]\<close> for a non-negative index, \<open>None\<close> for \<^verbatim>\<open>IndexError\<close>.\<close>

definition nth_opt :: "'a list \<Rightarrow> nat \<Rightarrow> 'a option" where
  "nth_opt xs i = (if i < length xs then Some (xs ! i) else None)"

text \<open>\<^verbatim>\<open>np.unique(y)[np.argmax(class_prior)]\<close>: the label of the most frequent class.\<close>

definition majority_class :: "real list \<Rightarrow> int list \<Rightarrow> int option" where
  "majority_class prior y =
     (case np_argmax (map Some prior) of
        None \<Rightarrow> None
      | Some k \<Rightarrow> nth_opt (np_unique y) k)"

text \<open>
  \<^verbatim>\<open>EarlyClassifier.predict(X)\<close> (lines 251--273), from the point where \<^verbatim>\<open>check_X_y\<close>
  has returned: classes, probabilities, triggers and costs.
\<close>

definition ec_predict ::
  "early_classifier \<Rightarrow> store \<Rightarrow> series list
     \<Rightarrow> (int option list \<times> proba list option \<times> trig_ref \<times> real list list option) option" where
  "ec_predict self hp X =
     (let chrono_clf = (if alter_classifiers (trigger_model self)
                        then new_chronological_classifiers self
                        else chronological_classifiers self)
      in if require_classifiers (trigger_model self) then
           (let probas = cc_predict_proba chrono_clf X
            in case np_argmax_rows probas of
                 None \<Rightarrow> None
               | Some classes \<Rightarrow>
                   (case (if require_past_probas (trigger_model self)
                          then tm_predict (trigger_model self) hp X
                                 (Past (cc_predict_past_proba chrono_clf X))
                          else tm_predict (trigger_model self) hp X (Current probas)) of
                      (triggers, costs) \<Rightarrow>
                        Some (map (\<lambda>c. Some (int c)) classes, Some probas, triggers, Some costs)))
         else (case tm_predict_alone (trigger_model self) hp X of
                 (classes, triggers, t_star) \<Rightarrow> Some (classes, None, triggers, None)))"

subsection \<open>score\<close>

text \<open>
  The four arrays that \<^verbatim>\<open>score\<close> updates. \<^verbatim>\<open>all_preds\<close> is a float array: \<open>None\<close> is
  \<^verbatim>\<open>nan\<close>, and -1 marks a series without prediction.
\<close>

record score_state =
  past_trigger :: "bool list"
  all_preds :: "int option list"
  all_t_star :: "int list"
  all_f_star :: "real list"

text \<open>\<^verbatim>\<open>.sum()\<close> of a boolean array.\<close>

definition count_true :: "bool list \<Rightarrow> nat" where
  "count_true bs = length (filter (\<lambda>b. b) bs)"

text \<open>\<^verbatim>\<open>old[mask] = new[mask]\<close>.\<close>

definition assign_where :: "bool list \<Rightarrow> 'a list \<Rightarrow> 'a list \<Rightarrow> 'a list" where
  "assign_where sel new old = map (\<lambda>(m, n, v). if m then n else v) (zip sel (zip new old))"

text \<open>
  \<^verbatim>\<open>old[mask] = [cm[int(p)][y[mask][i]] for i, p in enumerate(preds[mask])]\<close>, with \<open>cm\<close>
  one cost matrix. \<^verbatim>\<open>int(nan)\<close> raises.
\<close>

definition lookup_costs ::
  "(int \<Rightarrow> int \<Rightarrow> real) \<Rightarrow> bool list \<Rightarrow> int option list \<Rightarrow> int list \<Rightarrow> real list
     \<Rightarrow> real list option" where
  "lookup_costs cm sel preds y old =
     those (map (\<lambda>(m, p, c, f). if m then map_option (\<lambda>v. cm v c) p else Some f)
              (zip sel (zip preds (zip y old))))"

text \<open>
  \<^verbatim>\<open>np.searchsorted(a, v, side='left')\<close> on a sorted array: the number of entries below
  \<open>v\<close>.
\<close>

fun searchsorted_left :: "int list \<Rightarrow> int \<Rightarrow> nat" where
  "searchsorted_left [] v = 0"
| "searchsorted_left (x # xs) v = (if x < v then Suc (searchsorted_left xs v) else 0)"

text \<open>
  Lines 292--301, for a trigger model that does not use the classifiers: it predicts
  on its own, \<^verbatim>\<open>nan\<close> classes become the majority class, and the loop is left at once.
\<close>

definition score_alone ::
  "early_classifier \<Rightarrow> store \<Rightarrow> series list \<Rightarrow> int list \<Rightarrow> score_state
     \<Rightarrow> score_state option" where
  "score_alone self hp X y st =
     (let lens = models_input_lengths (chronological_classifiers self)
      in case tm_predict_alone (trigger_model self) hp X of
           (classes, triggers, t_star0) \<Rightarrow>
             (case majority_class (cc_class_prior (chronological_classifiers self)) y of
                None \<Rightarrow> None
              | Some def_preds \<Rightarrow>
                  (let preds = map (\<lambda>c. case c of None \<Rightarrow> def_preds | Some v \<Rightarrow> v) classes
                   in case those (map (\<lambda>val. nth_opt lens (searchsorted_left lens val)) t_star0) of
                        None \<Rightarrow> None
                      | Some t_star \<Rightarrow>
                          (case those (map (\<lambda>(i, t).
                                   do {
                                     k \<leftarrow> index_of lens t;
                                     p \<leftarrow> nth_opt preds i;
                                     c \<leftarrow> nth_opt y i;
                                     Some (cost_matrices self k p c)
                                   }) (zip [0..<length t_star] t_star)) of
                             None \<Rightarrow> None
                           | Some f_star \<Rightarrow>
                               Some (st\<lparr>all_preds := map Some preds, all_t_star := t_star,
                                         all_f_star := f_star\<rparr>)))))"

text \<open>
  Lines 302--307: the classes and the triggers at checkpoint number \<open>t\<close> of length \<open>l\<close>,
  from the stored history (\<^verbatim>\<open>probas_tmp.argmax(axis=-1)[:, -1]\<close>) or from
  \<^verbatim>\<open>self.predict(X[:, :l])\<close>.
\<close>

definition past_classes :: "proba list list \<Rightarrow> nat \<Rightarrow> nat list option" where
  "past_classes all_probas t =
     those (map (\<lambda>ps. case np_argmax_rows (take (Suc t) ps) of
                         None \<Rightarrow> None
                       | Some cs \<Rightarrow> if cs = [] then None else Some (last cs)) all_probas)"

definition step_classes ::
  "early_classifier \<Rightarrow> store \<Rightarrow> series list \<Rightarrow> nat \<Rightarrow> int
     \<Rightarrow> (int option list \<times> trig_ref) option" where
  "step_classes self hp X t l =
     (if require_past_probas (trigger_model self) then
        (let all_probas = cc_predict_past_proba (chronological_classifiers self) X;
             probas_tmp = map (take (Suc t)) all_probas
         in case past_classes all_probas t of
              None \<Rightarrow> None
            | Some classes \<Rightarrow>
                Some (map (\<lambda>c. Some (int c)) classes,
                      fst (tm_predict (trigger_model self) hp (map (py_take l) X)
                             (Past probas_tmp))))
      else (case ec_predict self hp (map (py_take l) X) of
              None \<Rightarrow> None
            | Some (classes, probas, triggers, costs) \<Rightarrow> Some (classes, triggers)))"

text \<open>
  Lines 326--336, at the last checkpoint \<open>l\<close>: the series still marked -1 stop here with
  the current class, a \<^verbatim>\<open>nan\<close> prediction becomes the majority class, and the series
  whose cost is still negative are charged with the last cost matrix.
\<close>

definition finalize ::
  "early_classifier \<Rightarrow> int list \<Rightarrow> int option list \<Rightarrow> int \<Rightarrow> score_state \<Rightarrow> score_state option"
where
  "finalize self y classes l st =
     (let t_star = map (\<lambda>v. if v < 0 then l else v) (all_t_star st);
          preds = map (\<lambda>(p, c). case p of None \<Rightarrow> p | Some v \<Rightarrow> if v < 0 then c else p)
                    (zip (all_preds st) classes)
      in case (if list_ex (\<lambda>p. p = None) preds
               then map_option (\<lambda>m. map (\<lambda>p. case p of None \<Rightarrow> Some m | Some v \<Rightarrow> p) preds)
                      (majority_class (cc_class_prior (chronological_classifiers self)) y)
               else Some preds) of
           None \<Rightarrow> None
         | Some preds \<Rightarrow>
             (case lookup_costs
                     (cost_matrices self
                        (length (models_input_lengths (chronological_classifiers self)) - 1))
                     (map (\<lambda>f. f < 0) (all_f_star st)) preds y (all_f_star st) of
                None \<Rightarrow> None
              | Some f \<Rightarrow> Some (st\<lparr>all_t_star := t_star, all_preds := preds, all_f_star := f\<rparr>)))"

text \<open>
  Lines 309--320: the series that trigger now, and the four arrays after they have been
  frozen at checkpoint number \<open>t\<close> of length \<open>l\<close>. Line 309 makes \<^verbatim>\<open>trigger_mask\<close> another
  name of the array \<^verbatim>\<open>triggers\<close> that the trigger model returned, so line 312, which
  clears the entries of the series that stopped earlier, writes into that array, and
  line 320 adds the cleared array to \<^verbatim>\<open>past_trigger\<close>. The result is the four arrays (or
  \<open>None\<close>) and the store after the write.
\<close>

definition score_update ::
  "early_classifier \<Rightarrow> int list \<Rightarrow> nat \<Rightarrow> int \<Rightarrow> int option list \<Rightarrow> trig_ref \<Rightarrow> score_state
     \<Rightarrow> store \<Rightarrow> score_state option \<times> store" where
  "score_update self y t l classes triggers st hp =
     (let (triggers, hp) =
            (if count_true (past_trigger st) \<noteq> 0
             then clear_where hp triggers (past_trigger st)
             else (triggers, hp));
          trigger_mask = deref hp triggers
      in case lookup_costs (cost_matrices self t) trigger_mask classes y (all_f_star st) of
           None \<Rightarrow> (None, hp)
         | Some f \<Rightarrow>
             (Some \<lparr>past_trigger = map (\<lambda>(p, m). p \<or> m) (zip (past_trigger st) trigger_mask),
                    all_preds = assign_where trigger_mask classes (all_preds st),
                    all_t_star = assign_where trigger_mask (map (\<lambda>m. l) trigger_mask)
                                   (all_t_star st),
                    all_f_star = f\<rparr>, hp))"

text \<open>
  The loop of lines 289--336 over the checkpoints that are left, each with its number:
  it ends when every series has triggered, or at the last checkpoint. It returns the
  four arrays (or \<open>None\<close>) and the store as the writes of line 312 have left it.
\<close>

fun score_loop ::
  "early_classifier \<Rightarrow> series list \<Rightarrow> int list \<Rightarrow> (nat \<times> int) list \<Rightarrow> score_state
     \<Rightarrow> store \<Rightarrow> score_state option \<times> store" where
  "score_loop self X y [] st hp = (Some st, hp)"
| "score_loop self X y ((t, l) # rest) st hp =
     (if require_classifiers (trigger_model self) then
        (case step_classes self hp X t l of
           None \<Rightarrow> (None, hp)
         | Some (classes, triggers) \<Rightarrow>
             (case score_update self y t l classes triggers st hp of
                (None, hp') \<Rightarrow> (None, hp')
              | (Some st', hp') \<Rightarrow>
                  if count_true (past_trigger st') = length X then (Some st', hp')
                  else if l = last (models_input_lengths (chronological_classifiers self))
                    then (finalize self y classes l st', hp')
                  else score_loop self X y rest st' hp'))
      else (score_alone self hp X y st, hp))"

text \<open>
  The result of \<^verbatim>\<open>score\<close>: the metrics it computes itself and the three arrays
  (\<^verbatim>\<open>harmonic_mean\<close> and \<^verbatim>\<open>kappa\<close> are library functions of these). \<^verbatim>\<open>np.mean\<close> is the sum
  over the number of entries; an empty array, for which numpy yields \<^verbatim>\<open>nan\<close>, is
  outside the properties below.
\<close>

record score_result =
  accuracy :: real
  earliness :: real
  average_cost :: real
  pred_t_star :: "int option list"
  t_star :: "int list"
  f_star :: "real list"

definition np_mean :: "real list \<Rightarrow> real" where
  "np_mean xs = sum_list xs / real (length xs)"

text \<open>
  \<^verbatim>\<open>score(X, y, return_metrics=True)\<close> as a step on the fitted object: the metrics (\<open>None\<close>
  when the call raises), and the arrays of the trigger model after the call. The method
  assigns to no attribute of \<^verbatim>\<open>self\<close>, so the record of the object is as before; the
  store is what it can change.
\<close>

definition score ::
  "early_classifier \<Rightarrow> store \<Rightarrow> series list \<Rightarrow> int list \<Rightarrow> score_result option \<times> store" where
  "score self hp X y =
     (let n = length X;
          lens = models_input_lengths (chronological_classifiers self);
          st0 = \<lparr>past_trigger = replicate n False, all_preds = replicate n (Some (- 1)),
                 all_t_star = replicate n (- 1), all_f_star = replicate n (- 1)\<rparr>
      in case score_loop self X y (zip [0..<length lens] lens) st0 hp of
           (None, hp') \<Rightarrow> (None, hp')
         | (Some st, hp') \<Rightarrow>
             (Some \<lparr>accuracy = np_mean (map (\<lambda>(p, c). if p = Some c then 1 else 0)
                                          (zip (all_preds st) y)),
                    earliness = np_mean (map real_of_int (all_t_star st)) / real_of_int (shape1 X),
                    average_cost = np_mean (all_f_star st),
                    pred_t_star = all_preds st,
                    t_star = all_t_star st,
                    f_star = all_f_star st\<rparr>, hp'))"

subsection \<open>get\_post\<close>

text \<open>\<^verbatim>\<open>np.argmin\<close> of a vector of costs: the index of the first smallest entry.\<close>

fun argmin_scan :: "real list \<Rightarrow> nat \<Rightarrow> nat \<Rightarrow> real \<Rightarrow> nat" where
  "argmin_scan [] i bi bv = bi"
| "argmin_scan (x # xs) i bi bv =
     (if x < bv then argmin_scan xs (Suc i) i x else argmin_scan xs (Suc i) bi bv)"

fun np_argmin :: "real list \<Rightarrow> nat option" where
  "np_argmin [] = None"
| "np_argmin (x # xs) = Some (argmin_scan xs 1 0 x)"

text \<open>
  Lines 367--384 for the call \<^verbatim>\<open>get_post(X, y)\<close>, that is with \<^verbatim>\<open>use_probas=False\<close>: the
  classes and the costs at checkpoint number \<open>t\<close> of length \<open>l\<close>. \<^verbatim>\<open>classes\<close> holds the
  integer indices that \<^verbatim>\<open>np.argmax\<close> returns, so the \<^verbatim>\<open>np.isnan\<close> tests of lines 379 and
  383 are false for every entry and the cost is \<^verbatim>\<open>cost_matrices[t][int(p)][y[i]]\<close>
  throughout; at the last checkpoint line 377 computes the majority class first, which
  can raise.
\<close>

definition post_row ::
  "early_classifier \<Rightarrow> series list \<Rightarrow> int list \<Rightarrow> nat \<Rightarrow> int \<Rightarrow> (nat list \<times> real list) option"
where
  "post_row self X y t l =
     (case np_argmax_rows (cc_predict_proba (chronological_classifiers self) (map (py_take l) X)) of
        None \<Rightarrow> None
      | Some classes \<Rightarrow>
          if length classes \<noteq> length y then None
          else if l = last (models_input_lengths (chronological_classifiers self)) then
            (case majority_class (cc_class_prior (chronological_classifiers self)) y of
               None \<Rightarrow> None
             | Some default_pred \<Rightarrow>
                 Some (classes, map (\<lambda>(p, c). cost_matrices self t (int p) c) (zip classes y)))
          else Some (classes, map (\<lambda>(p, c). cost_matrices self t (int p) c) (zip classes y)))"

record post_result =
  t_post :: "int list"
  f_post :: "real list"
  pred_t_post :: "int list"

text \<open>
  \<^verbatim>\<open>get_post(X, y)\<close>: per series, the checkpoint of least cost in hindsight (lines
  386--394). \<^verbatim>\<open>argmin\<close> over no checkpoint at all raises.
\<close>

definition get_post :: "early_classifier \<Rightarrow> series list \<Rightarrow> int list \<Rightarrow> post_result option" where
  "get_post self X y =
     (let lens = models_input_lengths (chronological_classifiers self)
      in case those (map (\<lambda>(t, l). post_row self X y t l) (zip [0..<length lens] lens)) of
           None \<Rightarrow> None
         | Some rows \<Rightarrow>
             if rows = [] then None
             else
               (let all_f = map snd rows;
                    preds = map fst rows;
                    columns = map (\<lambda>i. map (\<lambda>row. row ! i) all_f) [0..<length y]
                in case those (map np_argmin columns) of
                     None \<Rightarrow> None
                   | Some t_post_idx \<Rightarrow>
                       Some \<lparr>t_post = map (\<lambda>idx. lens ! idx) t_post_idx,
                             f_post = map (\<lambda>(col, idx). col ! idx) (zip columns t_post_idx),
                             pred_t_post = map (\<lambda>(i, idx). int (preds ! idx ! i))
                                             (zip [0..<length y] t_post_idx)\<rparr>))"

section \<open>EarlyClassifier: the forwarded attributes\<close>

text \<open>
  The names that \<^verbatim>\<open>EarlyClassifier\<close> assigns in \<^verbatim>\<open>__init__\<close> or declares as properties
  (lines 64--110). \<^verbatim>\<open>models_input_lengths\<close> is a property with a getter only; the four
  after it have a setter as well.
\<close>

datatype attribute =
    Cost_matrices
  | Chronological_classifiers
  | Prefit
  | Trigger_model
  | Trigger_params
  | Random_state
  | Models_input_lengths
  | Nb_classifiers
  | Sampling_ratio
  | Base_classifier
  | Min_length

text \<open>
  \<^verbatim>\<open>self.<name> = value\<close> on an instance whose \<^verbatim>\<open>__dict__\<close> is \<open>self\<close>. A property is a
  data descriptor of the class, so the assignment calls its setter (or raises
  \<^verbatim>\<open>AttributeError\<close> when there is none) and never reaches \<^verbatim>\<open>__dict__\<close>. The body of
  each of the four setters is the same assignment again (lines 85, 93, 101, 110); the
  \<^verbatim>\<open>return\<close> of line 102 comes after it. The result is \<open>None\<close> when the call does not
  return.
\<close>

partial_function (option) setattr ::
  "attribute \<Rightarrow> 'v \<Rightarrow> (attribute \<Rightarrow> 'v option) \<Rightarrow> (error + (attribute \<Rightarrow> 'v option)) option"
where
  "setattr a v self =
     (if a = Nb_classifiers then setattr Nb_classifiers v self
      else if a = Sampling_ratio then setattr Sampling_ratio v self
      else if a = Base_classifier then
        Option.bind (setattr Base_classifier v self) (\<lambda>r. Some r)
      else if a = Min_length then setattr Min_length v self
      else if a = Models_input_lengths then Some (Inl AttributeError)
      else Some (Inr (self(a := Some v))))"

text \<open>
  The same assignment under CPython's recursion limit: each call of a setter takes one
  of the \<open>n\<close> frames that are left, and \<^verbatim>\<open>RecursionError\<close> is raised when none is.
\<close>

fun setattr_limited ::
  "nat \<Rightarrow> attribute \<Rightarrow> 'v \<Rightarrow> (attribute \<Rightarrow> 'v option) \<Rightarrow> error + (attribute \<Rightarrow> 'v option)"
where
  "setattr_limited n Nb_classifiers v self =
     (case n of 0 \<Rightarrow> Inl RecursionError | Suc m \<Rightarrow> setattr_limited m Nb_classifiers v self)"
| "setattr_limited n Sampling_ratio v self =
     (case n of 0 \<Rightarrow> Inl RecursionError | Suc m \<Rightarrow> setattr_limited m Sampling_ratio v self)"
| "setattr_limited n Base_classifier v self =
     (case n of 0 \<Rightarrow> Inl RecursionError | Suc m \<Rightarrow> setattr_limited m Base_classifier v self)"
| "setattr_limited n Min_length v self =
     (case n of 0 \<Rightarrow> Inl RecursionError | Suc m \<Rightarrow> setattr_limited m Min_length v self)"
| "setattr_limited n Models_input_lengths v self = Inl AttributeError"
| "setattr_limited n a v self = Inr (self(a := Some v))"

subsection \<open>Notions for the comparison of get\_post with score\<close>

text \<open>
  The classes that \<^verbatim>\<open>get_post\<close> computes at a checkpoint of length \<open>l\<close>, and row \<open>t\<close> of
  its cost table \<^verbatim>\<open>all_f\<close>.
\<close>

definition post_classes :: "early_classifier \<Rightarrow> series list \<Rightarrow> int \<Rightarrow> nat list" where
  "post_classes self X l =
     (case np_argmax_rows (cc_predict_proba (chronological_classifiers self) (map (py_take l) X)) of
        None \<Rightarrow> []
      | Some cs \<Rightarrow> cs)"

definition post_costs :: "early_classifier \<Rightarrow> series list \<Rightarrow> int list \<Rightarrow> nat \<Rightarrow> real list" where
  "post_costs self X y t =
     map (\<lambda>(p, c). cost_matrices self t (int p) c)
       (zip (post_classes self X (models_input_lengths (chronological_classifiers self) ! t)) y)"

text \<open>
  The trigger model decides on the probabilities of the ensemble itself: it uses the
  classifiers, does not ask for the history and does not replace the ensemble.
\<close>

definition classifier_driven :: "early_classifier \<Rightarrow> bool" where
  "classifier_driven self \<longleftrightarrow>
     require_classifiers (trigger_model self)
     \<and> \<not> require_past_probas (trigger_model self)
     \<and> \<not> alter_classifiers (trigger_model self)"

text \<open>
  The trigger model decides on the history of the probabilities, and the classes of
  the history are those of \<^verbatim>\<open>predict_proba\<close> on the truncated data.
\<close>

definition history_driven :: "early_classifier \<Rightarrow> series list \<Rightarrow> bool" where
  "history_driven self X \<longleftrightarrow>
     require_classifiers (trigger_model self)
     \<and> require_past_probas (trigger_model self)
     \<and> (\<forall>t < length (models_input_lengths (chronological_classifiers self)).
          past_classes (cc_predict_past_proba (chronological_classifiers self) X) t
            = Some (post_classes self X
                      (models_input_lengths (chronological_classifiers self) ! t)))"

text \<open>
  The shapes agree: there is a series, one label per series, a checkpoint, no checkpoint
  twice, and at every checkpoint one non-empty probability vector per series.
\<close>

definition well_shaped :: "early_classifier \<Rightarrow> series list \<Rightarrow> int list \<Rightarrow> bool" where
  "well_shaped self X y \<longleftrightarrow>
     X \<noteq> [] \<and> length y = length X
     \<and> models_input_lengths (chronological_classifiers self) \<noteq> []
     \<and> distinct (models_input_lengths (chronological_classifiers self))
     \<and> list_all (\<lambda>l.
          length (cc_predict_proba (chronological_classifiers self) (map (py_take l) X)) = length X
          \<and> list_all (\<lambda>p. p \<noteq> [])
               (cc_predict_proba (chronological_classifiers self) (map (py_take l) X)))
         (models_input_lengths (chronological_classifiers self))"

text \<open>Two stores whose arrays have the same lengths; a write in place keeps them.\<close>

definition same_lengths :: "store \<Rightarrow> store \<Rightarrow> bool" where
  "same_lengths hp hp' \<longleftrightarrow> (\<forall>a. length (hp' a) = length (hp a))"

text \<open>
  The trigger model returns one trigger per series at every checkpoint, whatever the
  entries of the arrays it keeps: on the current probabilities, and on their history.
\<close>

definition current_triggers_shaped :: "early_classifier \<Rightarrow> store \<Rightarrow> series list \<Rightarrow> bool" where
  "current_triggers_shaped self hp X \<longleftrightarrow>
     (\<forall>hp'. same_lengths hp hp' \<longrightarrow>
        (\<forall>l \<in> set (models_input_lengths (chronological_classifiers self)).
           length (deref hp'
             (fst (tm_predict (trigger_model self) hp' (map (py_take l) X)
               (Current (cc_predict_proba (chronological_classifiers self)
                  (map (py_take l) X))))))
           = length X))"

definition past_triggers_shaped :: "early_classifier \<Rightarrow> store \<Rightarrow> series list \<Rightarrow> bool" where
  "past_triggers_shaped self hp X \<longleftrightarrow>
     (\<forall>hp'. same_lengths hp hp' \<longrightarrow>
        (\<forall>t < length (models_input_lengths (chronological_classifiers self)).
           length (deref hp'
             (fst (tm_predict (trigger_model self) hp'
               (map (py_take (models_input_lengths (chronological_classifiers self) ! t)) X)
               (Past (map (take (Suc t))
                  (cc_predict_past_proba (chronological_classifiers self) X))))))
           = length X))"

text \<open>
  At every checkpoint the loop of \<^verbatim>\<open>score\<close> sees the classes that \<^verbatim>\<open>get_post\<close> computes
  there, with one trigger per series, whatever the entries of the arrays that the
  trigger model keeps (their lengths being those in the store \<open>hp\<close>).
\<close>

definition steps_agree :: "early_classifier \<Rightarrow> store \<Rightarrow> series list \<Rightarrow> bool" where
  "steps_agree self hp X \<longleftrightarrow>
     (\<forall>hp'. same_lengths hp hp' \<longrightarrow>
        (\<forall>t < length (models_input_lengths (chronological_classifiers self)).
           \<exists>tr. step_classes self hp' X t
                   (models_input_lengths (chronological_classifiers self) ! t)
                  = Some (map (\<lambda>c. Some (int c))
                            (post_classes self X
                               (models_input_lengths (chronological_classifiers self) ! t)), tr)
               \<and> length (deref hp' tr) = length X))"

text \<open>
  What the loop of \<^verbatim>\<open>score\<close> maintains: a series that has triggered carries an entry of
  its column of \<^verbatim>\<open>all_f\<close> as cost and a class as prediction; one that has not still
  carries the marks -1.
\<close>

definition score_inv ::
  "early_classifier \<Rightarrow> series list \<Rightarrow> int list \<Rightarrow> score_state \<Rightarrow> bool" where
  "score_inv self X y st \<longleftrightarrow>
     length (past_trigger st) = length X \<and> length (all_preds st) = length X
     \<and> length (all_t_star st) = length X \<and> length (all_f_star st) = length X
     \<and> (\<forall>i < length X.
          if past_trigger st ! i
          then (\<exists>t < length (models_input_lengths (chronological_classifiers self)).
                  all_f_star st ! i = post_costs self X y t ! i)
               \<and> (\<exists>c. all_preds st ! i = Some (int c))
          else all_f_star st ! i = - 1 \<and> all_preds st ! i = Some (- 1))"

definition settled :: "early_classifier \<Rightarrow> series list \<Rightarrow> int list \<Rightarrow> real list \<Rightarrow> bool" where
  "settled self X y f \<longleftrightarrow>
     length f = length X
     \<and> (\<forall>i < length X.
          \<exists>t < length (models_input_lengths (chronological_classifiers self)).
            f ! i = post_costs self X y t ! i)"

text \<open>
  The trigger model hands out no array that it keeps: the triggers it returns are built
  for the call.
\<close>

definition returns_fresh :: "trigger_model \<Rightarrow> bool" where
  "returns_fresh tm \<longleftrightarrow> (\<forall>hp X p. \<exists>bs. fst (tm_predict tm hp X p) = Fresh bs)"

subsection \<open>Concrete models\<close>

text \<open>
  Costs for concrete runs: 1 for a wrong class, plus a quarter per checkpoint waited.
\<close>

definition delay_costs :: "nat \<Rightarrow> int \<Rightarrow> int \<Rightarrow> real" where
  "delay_costs t p c = (if p = c then 0 else 1) + real t / 4"

text \<open>A store without arrays, for trigger models that keep none.\<close>

definition no_arrays :: store where
  "no_arrays a = []"

text \<open>
  An ensemble with the checkpoints 1 and 2 and two classes: on a series of length 1 it
  favours class 0, on a longer one class 1; the history of a series holds the two
  vectors.
\<close>

definition two_step_ensemble :: chrono_classifiers where
  "two_step_ensemble =
     \<lparr>models_input_lengths = [1, 2], cc_class_prior = [1/2, 1/2],
      cc_predict_proba = map (\<lambda>s. if length s \<le> 1 then [Some (3/5), Some (2/5)]
                                    else [Some (1/5), Some (4/5)]),
      cc_predict_past_proba = map (\<lambda>s. [[Some (3/5), Some (2/5)], [Some (1/5), Some (4/5)]])\<rparr>"

text \<open>A trigger model on the current probabilities that fires at once.\<close>

definition eager_trigger :: trigger_model where
  "eager_trigger =
     \<lparr>require_classifiers = True, require_past_probas = False, alter_classifiers = False,
      tm_predict = (\<lambda>hp X probas. (Fresh (map (\<lambda>s. True) X), [])),
      tm_predict_alone = (\<lambda>hp X. ([], Fresh [], []))\<rparr>"

definition eager_model :: early_classifier where
  "eager_model =
     \<lparr>chronological_classifiers = two_step_ensemble,
      new_chronological_classifiers = two_step_ensemble,
      trigger_model = eager_trigger, cost_matrices = delay_costs\<rparr>"

text \<open>A trigger model on the history of the probabilities that fires at once.\<close>

definition history_trigger :: trigger_model where
  "history_trigger =
     \<lparr>require_classifiers = True, require_past_probas = True, alter_classifiers = False,
      tm_predict = (\<lambda>hp X probas. (Fresh (map (\<lambda>s. True) X), [])),
      tm_predict_alone = (\<lambda>hp X. ([], Fresh [], []))\<rparr>"

definition history_model :: early_classifier where
  "history_model =
     \<lparr>chronological_classifiers = two_step_ensemble,
      new_chronological_classifiers = two_step_ensemble,
      trigger_model = history_trigger, cost_matrices = delay_costs\<rparr>"

text \<open>
  A trigger model that keeps its decisions in the array at address 0 and returns that
  array itself at every call, and a store in which it holds: stop the first series,
  wait for the second.
\<close>

definition keeping_trigger :: trigger_model where
  "keeping_trigger =
     \<lparr>require_classifiers = True, require_past_probas = False, alter_classifiers = False,
      tm_predict = (\<lambda>hp X probas. (Kept 0, [])),
      tm_predict_alone = (\<lambda>hp X. ([], Fresh [], []))\<rparr>"

definition keeping_model :: early_classifier where
  "keeping_model =
     \<lparr>chronological_classifiers = two_step_ensemble,
      new_chronological_classifiers = two_step_ensemble,
      trigger_model = keeping_trigger, cost_matrices = delay_costs\<rparr>"

definition kept_decisions :: store where
  "kept_decisions = no_arrays(0 := [True, False])"

text \<open>
  A trigger model that works without the classifiers: it predicts class 1 for every
  series, at length 1.
\<close>

definition lone_trigger :: trigger_model where
  "lone_trigger =
     \<lparr>require_classifiers = False, require_past_probas = False, alter_classifiers = False,
      tm_predict = (\<lambda>hp X probas. (Fresh [], [])),
      tm_predict_alone =
        (\<lambda>hp X. (map (\<lambda>s. Some 1) X, Fresh (map (\<lambda>s. True) X), map (\<lambda>s. 1) X))\<rparr>"

text \<open>An ensemble with the checkpoints 1 and 2 that always favours class 0.\<close>

definition stubborn_ensemble :: chrono_classifiers where
  "stubborn_ensemble =
     \<lparr>models_input_lengths = [1, 2], cc_class_prior = [1/2, 1/2],
      cc_predict_proba = map (\<lambda>s. [Some (3/5), Some (2/5)]),
      cc_predict_past_proba = map (\<lambda>s. [])\<rparr>"

text \<open>
  An ensemble with the checkpoints 1 and 2 that always favours class 1, and a trigger
  model on the current probabilities that fires at once and replaces the ensemble
  (\<^verbatim>\<open>alter_classifiers\<close>): \<^verbatim>\<open>predict\<close> then asks the new ensemble, \<^verbatim>\<open>get_post\<close> the old one.
\<close>

definition right_ensemble :: chrono_classifiers where
  "right_ensemble =
     \<lparr>models_input_lengths = [1, 2], cc_class_prior = [1/2, 1/2],
      cc_predict_proba = map (\<lambda>s. [Some (2/5), Some (3/5)]),
      cc_predict_past_proba = map (\<lambda>s. [])\<rparr>"

definition altering_trigger :: trigger_model where
  "altering_trigger =
     \<lparr>require_classifiers = True, require_past_probas = False, alter_classifiers = True,
      tm_predict = (\<lambda>hp X probas. (Fresh (map (\<lambda>s. True) X), [])),
      tm_predict_alone = (\<lambda>hp X. ([], Fresh [], []))\<rparr>"

definition altered_model :: early_classifier where
  "altered_model =
     \<lparr>chronological_classifiers = stubborn_ensemble,
      new_chronological_classifiers = right_ensemble,
      trigger_model = altering_trigger, cost_matrices = delay_costs\<rparr>"

definition lone_model :: early_classifier where
  "lone_model =
     \<lparr>chronological_classifiers = stubborn_ensemble,
      new_chronological_classifiers = stubborn_ensemble,
      trigger_model = lone_trigger, cost_matrices = delay_costs\<rparr>"

text \<open>
  An ensemble with the single checkpoint 2 whose probabilities are all \<^verbatim>\<open>nan\<close>, with
  class 1 the more frequent one, and a trigger model that never fires.
\<close>

definition nan_ensemble :: chrono_classifiers where
  "nan_ensemble =
     \<lparr>models_input_lengths = [2], cc_class_prior = [1/5, 4/5],
      cc_predict_proba = map (\<lambda>s. [None, None]),
      cc_predict_past_proba = map (\<lambda>s. [])\<rparr>"

definition patient_trigger :: trigger_model where
  "patient_trigger =
     \<lparr>require_classifiers = True, require_past_probas = False, alter_classifiers = False,
      tm_predict = (\<lambda>hp X probas. (Fresh (map (\<lambda>s. False) X), [])),
      tm_predict_alone = (\<lambda>hp X. ([], Fresh [], []))\<rparr>"

definition nan_model :: early_classifier where
  "nan_model =
     \<lparr>chronological_classifiers = nan_ensemble, new_chronological_classifiers = nan_ensemble,
      trigger_model = patient_trigger, cost_matrices = delay_costs\<rparr>"

text \<open>
  The trigger model that works without the classifiers, beside an ensemble whose class
  prior favours class 1.
\<close>

definition skewed_lone_model :: early_classifier where
  "skewed_lone_model =
     \<lparr>chronological_classifiers = nan_ensemble, new_chronological_classifiers = nan_ensemble,
      trigger_model = lone_trigger, cost_matrices = delay_costs\<rparr>"

text \<open>A classifier for concrete runs of the ensemble: it answers with even odds.\<close>

definition even_odds :: "nat \<Rightarrow> real list \<Rightarrow> proba" where
  "even_odds j s = [Some (1/2), Some (1/2)]"

section \<open>Properties of BaseTimeClassifier.fit\<close>

subsection \<open>Auxiliary facts\<close>

lemma fit_classifiers_fields [simp]:
  "timestamps (fit_classifiers train self X y) = timestamps self"
  "sampling_ratio (fit_classifiers train self X y) = sampling_ratio self"
  "min_length (fit_classifiers train self X y) = min_length self"
  "max_length (fit_classifiers train self X y) = max_length self"
  "classes' (fit_classifiers train self X y) = classes' self"
  "class_prior (fit_classifiers train self X y) = class_prior self"
  "nb_classifiers (fit_classifiers train self X y) = nb_classifiers self"
  by (simp_all add: fit_classifiers_def split: ts_arg.splits)

lemma sort_timestamps_fields [simp]:
  "sampling_ratio (sort_timestamps self) = sampling_ratio self"
  "min_length (sort_timestamps self) = min_length self"
  "max_length (sort_timestamps self) = max_length self"
  "classes' (sort_timestamps self) = classes' self"
  "class_prior (sort_timestamps self) = class_prior self"
  "nb_classifiers (sort_timestamps self) = nb_classifiers self"
  "classifiers (sort_timestamps self) = classifiers self"
  by (simp_all add: sort_timestamps_def split: ts_arg.splits)

lemma check_timestamps_fields [simp]:
  "min_length (state (check_timestamps self)) = min_length self"
  "max_length (state (check_timestamps self)) = max_length self"
  "classes' (state (check_timestamps self)) = classes' self"
  "class_prior (state (check_timestamps self)) = class_prior self"
  "nb_classifiers (state (check_timestamps self)) = nb_classifiers self"
  "classifiers (state (check_timestamps self)) = classifiers self"
  by (simp_all add: check_timestamps_def Let_def split: ts_arg.splits)

lemma effective_min_length_upd [simp]:
  "effective_min_length (self\<lparr>max_length := m\<rparr>) = effective_min_length self"
  by (simp add: effective_min_length_def)

lemma np_array_not_list:
  "np_array es \<noteq> TsList fs" "np_array es \<noteq> TsNone" "np_array es \<noteq> TsOther"
  by (simp_all add: np_array_def split: option.splits)

lemma check_timestamps_not_None:
  "timestamps self \<noteq> TsNone \<Longrightarrow> timestamps (state (check_timestamps self)) \<noteq> TsNone"
  by (auto simp: check_timestamps_def Let_def np_array_def
      split: ts_arg.splits option.splits if_splits)

text \<open>An accepted explicit argument leaves a non-empty array of distinct non-negative integers.\<close>

lemma check_timestamps_ok:
  assumes "timestamps self \<noteq> TsNone" and "raised (check_timestamps self) = None"
  shows "\<exists>ts. timestamps (state (check_timestamps self)) = TsIntArray ts \<and> distinct ts
           \<and> ts \<noteq> [] \<and> (\<forall>t \<in> set ts. 0 \<le> t)"
proof -
  define self' where
    "self' = (case timestamps self of TsList es \<Rightarrow> self\<lparr>timestamps := np_array es\<rparr> | _ \<Rightarrow> self)"
  have ne: "timestamps self' \<noteq> TsNone" "\<And>fs. timestamps self' \<noteq> TsList fs"
    using assms(1) by (auto simp: self'_def np_array_not_list split: ts_arg.splits)
  from assms(2) obtain ts where
    ts: "timestamps self' = TsIntArray ts" "ts \<noteq> []" "\<not> list_ex (\<lambda>t. t < 0) ts"
    using ne unfolding check_timestamps_def self'_def[symmetric] Let_def
    by (cases "timestamps self'") (auto split: if_splits)
  show ?thesis
  proof (cases "length (np_unique ts) = length ts")
    case True
    then have "distinct ts"
      by (metis np_unique_def length_sort length_remdups_eq distinct_remdups)
    moreover have "timestamps (state (check_timestamps self)) = TsIntArray ts"
      using ts True unfolding check_timestamps_def self'_def[symmetric] Let_def
      by (simp split: if_splits)
    ultimately show ?thesis using ts by (auto simp: list_ex_iff not_less)
  next
    case False
    then have "timestamps (state (check_timestamps self)) = TsIntArray (np_unique ts)"
      using ts unfolding check_timestamps_def self'_def[symmetric] Let_def
      by (simp split: if_splits)
    moreover have "distinct (np_unique ts)" "set (np_unique ts) = set ts"
      by (simp_all add: np_unique_def)
    ultimately show ?thesis using ts by (auto simp: list_ex_iff not_less)
  qed
qed

lemma py_int_truediv_nonneg: "0 \<le> a \<Longrightarrow> 0 < b \<Longrightarrow> py_int_truediv a b = a div b"
  by (cases "a = 0") (simp_all add: py_int_truediv_def)

text \<open>With \<open>mn \<le> mx\<close> the truncation of line 83 is a floor.\<close>

lemma derived_lengths_floor:
  assumes "mn \<le> mx"
  shows "derived_lengths mx mn nb = map (\<lambda>i. ((mx - mn) * i) div nb + mn) [1..nb]"
  unfolding derived_lengths_def
  by (rule map_cong) (use assms in \<open>auto simp: py_int_truediv_nonneg\<close>)

lemma derived_lengths_bounds:
  assumes "mn \<le> mx" and "t \<in> set (derived_lengths mx mn nb)"
  shows "mn \<le> t \<and> t \<le> mx"
proof -
  from assms obtain i where i: "1 \<le> i" "i \<le> nb" and t: "t = ((mx - mn) * i) div nb + mn"
    by (auto simp: derived_lengths_floor)
  have nb: "0 < nb" using i by simp
  have "0 \<le> (mx - mn) * i" using assms(1) i by simp
  then have lo: "0 \<le> ((mx - mn) * i) div nb" using nb by (simp add: pos_imp_zdiv_nonneg_iff)
  have "(mx - mn) * i \<le> (mx - mn) * nb" using assms(1) i by (simp add: mult_left_mono)
  then have "((mx - mn) * i) div nb \<le> ((mx - mn) * nb) div nb" using nb by (intro zdiv_mono1)
  moreover have "((mx - mn) * nb) div nb = mx - mn" using nb by simp
  ultimately have hi: "((mx - mn) * i) div nb \<le> mx - mn" by simp
  show ?thesis using lo hi t by simp
qed

text \<open>What a successful \<^verbatim>\<open>fit\<close> stores when the checkpoints are derived from a count.\<close>

lemma fit_derived:
  assumes "timestamps self = TsNone" and "raised (fit train self X y) = None"
  shows "\<exists>count. planned_count self (shape1 X) (effective_min_length self) = Some count
           \<and> timestamps (state (fit train self X y)) =
               TsIntArray (sort (remdups
                 (derived_lengths (shape1 X) (effective_min_length self) count)))
           \<and> nb_classifiers (state (fit train self X y)) =
               Some (int (length (remdups
                 (derived_lengths (shape1 X) (effective_min_length self) count))))"
    and "min_length (state (fit train self X y)) = Some (effective_min_length self)"
    and "max_length (state (fit train self X y)) = Some (shape1 X)"
  using assms
  by (auto simp: fit_def Let_def check_config_def check_sampling_ratio_def derive_timestamps_def
        planned_count_def sort_timestamps_def effective_min_length_def
      split: ratio_arg.splits if_splits option.splits)

text \<open>What a successful \<^verbatim>\<open>fit\<close> stores when the checkpoints were given.\<close>

lemma fit_explicit:
  assumes "timestamps self \<noteq> TsNone" and "raised (fit train self X y) = None"
  shows "\<exists>ts. timestamps (state (fit train self X y)) = TsIntArray (sort ts) \<and> distinct ts
           \<and> ts \<noteq> [] \<and> (\<forall>t \<in> set ts. 0 \<le> t)"
proof -
  define self' where
    "self' = self\<lparr>max_length := Some (shape1 X), min_length := Some (effective_min_length self),
       classes' := Some (np_unique y), class_prior := Some (prior_of y)\<rparr>"
  have ne: "timestamps self' \<noteq> TsNone" using assms(1) by (simp add: self'_def)
  have r: "raised (check_timestamps self') = None"
    using assms ne by (auto simp: fit_def Let_def check_config_def self'_def split: if_splits)
  from check_timestamps_ok[OF ne r] obtain ts where
    ts: "timestamps (state (check_timestamps self')) = TsIntArray ts" "distinct ts" "ts \<noteq> []"
      "\<forall>t \<in> set ts. 0 \<le> t"
    by blast
  have "timestamps (state (fit train self X y)) = TsIntArray (sort ts)"
    using assms ne r ts(1)
    by (auto simp: fit_def Let_def check_config_def self'_def[symmetric] derive_timestamps_def
          sort_timestamps_def
        split: if_splits)
  then show ?thesis using ts by blast
qed

lemma fit_min_max:
  assumes "raised (fit train self X y) = None"
  shows "min_length (state (fit train self X y)) = Some (effective_min_length self)
       \<and> max_length (state (fit train self X y)) = Some (shape1 X)"
proof (cases "timestamps self = TsNone")
  case True
  show ?thesis
    using fit_derived(2)[OF True assms] fit_derived(3)[OF True assms] by simp
next
  case False
  then show ?thesis
    by (simp add: fit_def Let_def derive_timestamps_def check_config_def check_timestamps_not_None)
qed

lemma check_timestamps_invalid:
  assumes "invalid_timestamps (timestamps self)"
  shows "raised (check_timestamps self) \<noteq> None
       \<and> sampling_ratio (state (check_timestamps self)) = sampling_ratio self"
  using assms
  by (auto simp: invalid_timestamps_def check_timestamps_def Let_def np_array_def
      split: ts_arg.splits option.splits)

lemma invalid_not_None: "invalid_timestamps a \<Longrightarrow> a \<noteq> TsNone"
  by (auto simp: invalid_timestamps_def)

lemma check_sampling_ratio_invalid:
  assumes "invalid_ratio (sampling_ratio self)"
  shows "raised (check_sampling_ratio self mx mn) \<noteq> None
       \<and> state (check_sampling_ratio self mx mn) = self"
  using assms
  by (auto simp: invalid_ratio_def check_sampling_ratio_def split: ratio_arg.splits)

text \<open>The float quotient of a positive ratio is not negative, so \<^verbatim>\<open>int\<close> takes its floor.\<close>

lemma round_half_even_nonneg: "0 \<le> x \<Longrightarrow> 0 \<le> round_half_even x"
  by (simp add: round_half_even_def Let_def)

lemma float_round_nonneg:
  assumes "0 \<le> x" and "float_round x = Some q"
  shows "0 \<le> q"
proof -
  define e where "e = ilog2 (nat \<lfloor>x\<rfloor>)"
  define n where
    "n = round_half_even (if e \<le> 52 then x * 2 ^ (52 - e) else x / 2 ^ (e - 52))"
  have "0 \<le> (if e \<le> 52 then x * 2 ^ (52 - e) else x / 2 ^ (e - 52))"
    using assms(1) by simp
  then have n: "0 \<le> n" unfolding n_def by (rule round_half_even_nonneg)
  have "q = (if e \<le> 52 then of_int n / 2 ^ (52 - e) else of_int n * 2 ^ (e - 52))"
    using assms(2) unfolding float_round_def e_def[symmetric] Let_def n_def[symmetric]
    by (simp split: if_splits)
  then show ?thesis using n by simp
qed

lemma float_div_one_floor:
  assumes "0 < r" and "float_div_one r = Some q"
  shows "py_int q = \<lfloor>q\<rfloor>"
proof -
  have "0 \<le> 1 / r" using assms(1) by simp
  then have "0 \<le> q" using assms(2) unfolding float_div_one_def by (rule float_round_nonneg)
  then show ?thesis by (simp add: py_int_def)
qed

lemmas float_eval = float_div_one_def float_round_def round_half_even_def ilog2.simps

text \<open>
  The quotient at the doubles of the literals \<^verbatim>\<open>0.25\<close>, \<^verbatim>\<open>0.1\<close>, \<^verbatim>\<open>0.05\<close> and \<^verbatim>\<open>0.6\<close>:
  \<^verbatim>\<open>1/0.1\<close> is the double 10 although the double \<^verbatim>\<open>0.1\<close> lies above one tenth.
\<close>

lemma float_div_one_literals:
  "float_div_one (1/4) = Some 4"
  "float_div_one (3602879701896397 / 36028797018963968) = Some 10"
  "float_div_one (3602879701896397 / 72057594037927936) = Some 20"
  "float_div_one (5404319552844595 / 9007199254740992)
     = Some (7505999378950827 / 4503599627370496)"
  by (simp_all add: float_eval Let_def)

text \<open>
  \<^verbatim>\<open>1/5e-324\<close>, the quotient at the smallest positive double \<open>1 / 2 ^ 1074\<close>, is \<^verbatim>\<open>inf\<close>, and
  so is the quotient at every double up to \<open>1 / 2 ^ 1024\<close>, about \<^verbatim>\<open>5.56e-309\<close>; at
  \<open>1 / 2 ^ 1023\<close> it is the double \<open>2 ^ 1023\<close>.
\<close>

lemma float_div_one_overflow:
  "float_div_one (1 / 2 ^ 1074) = None"
  "float_div_one (1 / 2 ^ 1024) = None"
  "float_div_one (1 / 2 ^ 1023) = Some (2 ^ 1023)"
  by (simp_all add: float_eval Let_def)

lemma shape1_row: "shape1 [replicate n 0] = int n"
  by (simp add: shape1_def)

lemma derived_quarter: "derived_lengths 100 1 4 = [25, 50, 75, 100]"
  by (simp add: derived_lengths_def py_int_truediv_def upto_rec1)

lemmas fit_eval = fit_def Let_def check_config_def check_timestamps_def check_sampling_ratio_def
  derive_timestamps_def sort_timestamps_def fit_classifiers_def effective_min_length_def
  init_def shape1_def np_array_def np_unique_def derived_lengths_def py_int_truediv_def
  ratio_count_def py_int_def no_train_def prior_of_def planned_count_def
  float_div_one_def float_round_def round_half_even_def ilog2.simps np_minimum_def int64_def

subsection \<open>The stored checkpoint sequence\<close>

text \<open>
  Claim C2, as the code has it. After every successful \<^verbatim>\<open>fit\<close> the stored checkpoints
  are an integer array that is strictly increasing, hence without duplicates. When
  they were derived from a count (no \<^verbatim>\<open>timestamps\<close> given) and
  \<^verbatim>\<open>min_length \<le> max_length\<close>, every checkpoint lies in \<^verbatim>\<open>[min_length, max_length]\<close>.
  Explicit \<^verbatim>\<open>timestamps\<close> are only checked to be non-negative integers, so they
  need not lie in that range.
\<close>

theorem fit_checkpoints_strictly_increasing:
  assumes "raised (fit train self X y) = None"
  shows "\<exists>ts. timestamps (state (fit train self X y)) = TsIntArray ts
           \<and> sorted_wrt (<) ts \<and> distinct ts
           \<and> min_length (state (fit train self X y)) = Some (effective_min_length self)
           \<and> max_length (state (fit train self X y)) = Some (shape1 X)
           \<and> (timestamps self = TsNone \<longrightarrow> effective_min_length self \<le> shape1 X \<longrightarrow>
                (\<forall>t \<in> set ts. effective_min_length self \<le> t \<and> t \<le> shape1 X))"
proof (cases "timestamps self = TsNone")
  case True
  from fit_derived(1)[OF True assms] obtain count where
    ts0: "timestamps (state (fit train self X y)) =
            TsIntArray (sort (remdups
              (derived_lengths (shape1 X) (effective_min_length self) count)))"
    by blast
  define ds where "ds = derived_lengths (shape1 X) (effective_min_length self) count"
  have ts: "timestamps (state (fit train self X y)) = TsIntArray (sort (remdups ds))"
    unfolding ds_def by (rule ts0)
  have s: "sorted_wrt (<) (sort (remdups ds))" and d: "distinct (sort (remdups ds))"
    by (simp_all add: strict_sorted_iff)
  have b: "\<forall>t \<in> set (sort (remdups ds)). effective_min_length self \<le> t \<and> t \<le> shape1 X"
    if le: "effective_min_length self \<le> shape1 X"
  proof
    fix t assume "t \<in> set (sort (remdups ds))"
    then have "t \<in> set (derived_lengths (shape1 X) (effective_min_length self) count)"
      by (simp add: ds_def)
    then show "effective_min_length self \<le> t \<and> t \<le> shape1 X"
      by (rule derived_lengths_bounds[OF le])
  qed
  show ?thesis
    using ts s d b fit_min_max[OF assms] by blast
next
  case False
  from fit_explicit[OF False assms] obtain ts where
    ts: "timestamps (state (fit train self X y)) = TsIntArray (sort ts)" "distinct ts" by blast
  have "sorted_wrt (<) (sort ts)" "distinct (sort ts)"
    using ts(2) by (simp_all add: strict_sorted_iff)
  then show ?thesis using ts(1) False fit_min_max[OF assms] by blast
qed

text \<open>
  The theorem at work: sampling ratio 1/2, \<^verbatim>\<open>min_length = 1\<close>, series of length 4.
\<close>

theorem fit_checkpoints_strictly_increasing_witness:
  "raised (fit no_train (init TsNone (SrNum (1/2)) (Some 1)) [[0, 0, 0, 0]] [0]) = None
   \<and> (\<exists>ts. timestamps (state (fit no_train (init TsNone (SrNum (1/2)) (Some 1)) [[0, 0, 0, 0]] [0]))
              = TsIntArray ts
           \<and> sorted_wrt (<) ts \<and> distinct ts \<and> (\<forall>t \<in> set ts. 1 \<le> t \<and> t \<le> 4))"
proof -
  have r: "raised (fit no_train (init TsNone (SrNum (1/2)) (Some 1)) [[0, 0, 0, 0]] [0]) = None"
    by (simp add: fit_eval)
  show ?thesis
    using r fit_checkpoints_strictly_increasing[OF r]
    by (auto simp add: init_def effective_min_length_def shape1_def)
qed

text \<open>
  The claim as stated fails for explicit checkpoints: \<^verbatim>\<open>timestamps=[0, 7]\<close> with
  \<^verbatim>\<open>min_length=1\<close> on series of length 3 is accepted, and the stored checkpoints 0 and 7
  lie outside \<open>[1, 3]\<close>.
\<close>

theorem fit_explicit_timestamps_out_of_range:
  "raised (fit no_train (init (TsList [PyInt 0, PyInt 7]) SrNone (Some 1)) [[0, 0, 0]] [0]) = None
   \<and> timestamps (state (fit no_train (init (TsList [PyInt 0, PyInt 7]) SrNone (Some 1)) [[0, 0, 0]] [0]))
       = TsIntArray [0, 7]
   \<and> min_length (state (fit no_train (init (TsList [PyInt 0, PyInt 7]) SrNone (Some 1)) [[0, 0, 0]] [0]))
       = Some 1
   \<and> max_length (state (fit no_train (init (TsList [PyInt 0, PyInt 7]) SrNone (Some 1)) [[0, 0, 0]] [0]))
       = Some 3"
  by (simp add: fit_eval)

subsection \<open>The classifier count taken from the sampling ratio\<close>

text \<open>
  Claim C4, as the code has it. With no \<^verbatim>\<open>timestamps\<close>, a \<^verbatim>\<open>sampling_ratio\<close> of another
  type raises \<^verbatim>\<open>TypeError\<close> and a number outside \<open>(0, 1]\<close> raises \<^verbatim>\<open>ValueError\<close>. For a
  number \<open>r\<close> in \<open>(0, 1]\<close> the float quotient \<^verbatim>\<open>1/r\<close> is taken. When it is \<^verbatim>\<open>inf\<close>, \<^verbatim>\<open>int\<close>
  raises \<^verbatim>\<open>OverflowError\<close>. When it is a double \<open>q\<close>, \<^verbatim>\<open>int\<close> truncates it (it takes the
  floor of \<open>q\<close>, not the nearest integer), and when \<^verbatim>\<open>int(q)\<close> and
  \<^verbatim>\<open>max_length - min_length + 1\<close> are within \<^verbatim>\<open>int64\<close> the count is their minimum, the
  checkpoints are derived from that count and the stored count is their number.
\<close>

theorem fit_sampling_ratio_count:
  assumes "timestamps self = TsNone"
  shows "(sampling_ratio self = SrOther \<longrightarrow> raised (fit train self X y) = Some TypeError)
       \<and> (sampling_ratio self = SrNum r \<and> (r \<le> 0 \<or> 1 < r) \<longrightarrow>
            raised (fit train self X y) = Some ValueError)
       \<and> (sampling_ratio self = SrNum r \<and> 0 < r \<and> r \<le> 1 \<and> float_div_one r = None \<longrightarrow>
            raised (fit train self X y) = Some OverflowError)
       \<and> (sampling_ratio self = SrNum r \<and> 0 < r \<and> r \<le> 1 \<and> float_div_one r = Some q
            \<and> int64 (py_int q) \<and> int64 (shape1 X - effective_min_length self + 1) \<longrightarrow>
            raised (fit train self X y) = None
          \<and> py_int q = \<lfloor>q\<rfloor>
          \<and> timestamps (state (fit train self X y))
              = TsIntArray (sort (remdups (derived_lengths (shape1 X) (effective_min_length self)
                   (min (py_int q) (shape1 X - effective_min_length self + 1)))))
          \<and> nb_classifiers (state (fit train self X y))
              = Some (int (length (remdups (derived_lengths (shape1 X) (effective_min_length self)
                   (min (py_int q) (shape1 X - effective_min_length self + 1)))))))"
proof (intro conjI impI)
  assume "sampling_ratio self = SrOther"
  then show "raised (fit train self X y) = Some TypeError"
    using assms by (simp add: fit_def Let_def check_config_def check_sampling_ratio_def)
next
  assume "sampling_ratio self = SrNum r \<and> (r \<le> 0 \<or> 1 < r)"
  then show "raised (fit train self X y) = Some ValueError"
    using assms by (auto simp add: fit_def Let_def check_config_def check_sampling_ratio_def)
next
  assume "sampling_ratio self = SrNum r \<and> 0 < r \<and> r \<le> 1 \<and> float_div_one r = None"
  then show "raised (fit train self X y) = Some OverflowError"
    using assms
    by (simp add: fit_def Let_def check_config_def check_sampling_ratio_def ratio_count_def)
next
  assume a: "sampling_ratio self = SrNum r \<and> 0 < r \<and> r \<le> 1 \<and> float_div_one r = Some q
            \<and> int64 (py_int q) \<and> int64 (shape1 X - effective_min_length self + 1)"
  then have rc: "ratio_count r (shape1 X) (effective_min_length self)
      = Some (min (py_int q) (shape1 X - effective_min_length self + 1))"
    by (simp add: ratio_count_def np_minimum_def)
  have e: "effective_min_length
      (self\<lparr>max_length := Some (shape1 X), min_length := Some (effective_min_length self),
         classes' := Some (np_unique y), class_prior := Some (prior_of y)\<rparr>)
      = effective_min_length self"
    by (simp add: effective_min_length_def)
  from a rc show ok: "raised (fit train self X y) = None"
    using assms
    by (simp add: fit_def Let_def check_config_def check_sampling_ratio_def
        derive_timestamps_def)
  from a show "py_int q = \<lfloor>q\<rfloor>"
    using float_div_one_floor[of r q] by simp
  have pc: "planned_count self (shape1 X) (effective_min_length self)
      = Some (min (py_int q) (shape1 X - effective_min_length self + 1))"
    using a rc by (simp add: planned_count_def)
  show "timestamps (state (fit train self X y))
              = TsIntArray (sort (remdups (derived_lengths (shape1 X) (effective_min_length self)
                   (min (py_int q) (shape1 X - effective_min_length self + 1)))))"
    using fit_derived(1)[OF assms ok] pc by auto
  show "nb_classifiers (state (fit train self X y))
              = Some (int (length (remdups (derived_lengths (shape1 X) (effective_min_length self)
                   (min (py_int q) (shape1 X - effective_min_length self + 1))))))"
    using fit_derived(1)[OF assms ok] pc by auto
qed

text \<open>
  The scenario of the specification: \<^verbatim>\<open>sampling_ratio=0.25\<close>, \<^verbatim>\<open>max_length=100\<close>,
  \<^verbatim>\<open>min_length=1\<close> gives the quotient 4, the count 4 and the checkpoints 25, 50, 75, 100.
  And \<^verbatim>\<open>sampling_ratio=5e-324\<close>, whose quotient is \<^verbatim>\<open>inf\<close>, raises \<^verbatim>\<open>OverflowError\<close>.
\<close>

theorem fit_sampling_ratio_count_witness:
  "timestamps (init TsNone (SrNum (1/4)) (Some 1) :: unit time_classifier) = TsNone
   \<and> float_div_one (1/4) = Some 4
   \<and> int64 (py_int 4) \<and> int64 (100 - 1 + 1)
   \<and> raised (fit no_train (init TsNone (SrNum (1/4)) (Some 1)) [replicate 100 0] [0]) = None
   \<and> timestamps (state (fit no_train (init TsNone (SrNum (1/4)) (Some 1)) [replicate 100 0] [0]))
        = TsIntArray [25, 50, 75, 100]
   \<and> nb_classifiers (state (fit no_train (init TsNone (SrNum (1/4)) (Some 1)) [replicate 100 0] [0]))
        = Some 4
   \<and> float_div_one (1 / 2 ^ 1074) = None
   \<and> raised (fit no_train (init TsNone (SrNum (1 / 2 ^ 1074)) (Some 1)) [replicate 100 0] [0])
        = Some OverflowError"
proof -
  have t: "timestamps (init TsNone (SrNum (1/4)) (Some 1) :: unit time_classifier) = TsNone"
    by (simp add: init_def)
  have e: "effective_min_length (init TsNone (SrNum (1/4)) (Some 1) :: unit time_classifier) = 1"
    "sampling_ratio (init TsNone (SrNum (1/4)) (Some 1) :: unit time_classifier) = SrNum (1/4)"
    by (simp_all add: init_def effective_min_length_def)
  have q: "float_div_one (1/4) = Some 4"
    by (rule float_div_one_literals(1))
  have c: "py_int 4 = 4"
    by (simp add: py_int_def)
  have i: "int64 4" "int64 100"
    by (simp_all add: int64_def)
  have ok: "raised (fit no_train (init TsNone (SrNum (1/4)) (Some 1)) [replicate 100 0] [0]) = None
   \<and> timestamps (state (fit no_train (init TsNone (SrNum (1/4)) (Some 1)) [replicate 100 0] [0]))
        = TsIntArray [25, 50, 75, 100]
   \<and> nb_classifiers (state (fit no_train (init TsNone (SrNum (1/4)) (Some 1)) [replicate 100 0] [0]))
        = Some 4"
    using fit_sampling_ratio_count[OF t, where r = "1/4" and q = 4 and train = no_train
        and X = "[replicate 100 0]" and y = "[0]"] q
    by (simp add: e shape1_row c i derived_quarter)
  have t': "timestamps (init TsNone (SrNum (1 / 2 ^ 1074)) (Some 1) :: unit time_classifier)
      = TsNone"
    by (simp add: init_def)
  have e': "sampling_ratio (init TsNone (SrNum (1 / 2 ^ 1074)) (Some 1) :: unit time_classifier)
      = SrNum (1 / 2 ^ 1074)"
    by (simp add: init_def)
  have q': "float_div_one (1 / 2 ^ 1074) = None"
    by (rule float_div_one_overflow(1))
  have r': "(0::real) < 1 / 2 ^ 1074" "(1::real) / 2 ^ 1074 \<le> 1"
    by simp_all
  have ov: "raised (fit no_train (init TsNone (SrNum (1 / 2 ^ 1074)) (Some 1))
      [replicate 100 0] [0]) = Some OverflowError"
    using fit_sampling_ratio_count[OF t', where r = "1 / 2 ^ 1074" and train = no_train
        and X = "[replicate 100 0]" and y = "[0]"] e' q' r'
    by blast
  show ?thesis using t q c i ok q' ov by simp
qed

text \<open>
  The claim as stated fails where truncation and rounding differ. The literal
  \<^verbatim>\<open>sampling_ratio=0.6\<close> is the double \<open>5404319552844595 / 2 ^ 53\<close>, and \<^verbatim>\<open>1/0.6\<close> the double
  \<open>7505999378950827 / 2 ^ 52\<close>, about 1.67: with \<^verbatim>\<open>max_length=100\<close> and \<^verbatim>\<open>min_length=1\<close> the
  code's count is \<^verbatim>\<open>min(int(1.66..), 100) = 1\<close>, the claimed one
  \<^verbatim>\<open>min(round(1.66..), 100) = 2\<close>.
\<close>

theorem ratio_count_truncates_not_rounds:
  "ratio_count (5404319552844595 / 9007199254740992) 100 1 = Some 1
   \<and> spec_ratio_count (5404319552844595 / 9007199254740992) 100 1 = Some 2
   \<and> nb_classifiers (state (fit no_train
        (init TsNone (SrNum (5404319552844595 / 9007199254740992)) (Some 1))
        [replicate 100 0] [0])) = Some 1"
proof -
  have q: "float_div_one (5404319552844595 / 9007199254740992)
     = Some (7505999378950827 / 4503599627370496)"
    by (rule float_div_one_literals(4))
  have c: "ratio_count (5404319552844595 / 9007199254740992) 100 1 = Some 1"
    by (simp add: ratio_count_def q py_int_def np_minimum_def int64_def)
  have s: "spec_ratio_count (5404319552844595 / 9007199254740992) 100 1 = Some 2"
    by (simp add: spec_ratio_count_def q round_half_even_def Let_def np_minimum_def int64_def)
  have d: "derived_lengths 100 1 1 = [100]"
    by (simp add: derived_lengths_def py_int_truediv_def upto_rec1)
  have n: "nb_classifiers (state (fit no_train
        (init TsNone (SrNum (5404319552844595 / 9007199254740992)) (Some 1))
        [replicate 100 0] [0])) = Some 1"
    by (simp add: fit_def Let_def check_config_def check_sampling_ratio_def c
        derive_timestamps_def sort_timestamps_def effective_min_length_def init_def
        shape1_row d)
  show ?thesis using c s n by simp
qed

subsection \<open>Checkpoints derived from a count\<close>

text \<open>
  Claim C5. When the checkpoints are derived from the classifier count (no \<^verbatim>\<open>timestamps\<close>
  given) for lengths between \<^verbatim>\<open>min_length\<close> and \<^verbatim>\<open>max_length\<close>, that is with
  \<^verbatim>\<open>min_length \<le> max_length\<close>, the stored checkpoints are without duplicates, their set is
  \<open>{floor((max_length - min_length) * i / count) + min_length : i = 1..count}\<close> for the
  count that line 74 or 79 assigned, and the stored count is the size of that set.
\<close>

theorem fit_derived_checkpoints:
  assumes "timestamps self = TsNone" and "raised (fit train self X y) = None"
    and "effective_min_length self \<le> shape1 X"
  shows "\<exists>count ts. planned_count self (shape1 X) (effective_min_length self) = Some count
          \<and> timestamps (state (fit train self X y)) = TsIntArray ts \<and> distinct ts
          \<and> set ts = set (spec_lengths (shape1 X) (effective_min_length self) count)
          \<and> nb_classifiers (state (fit train self X y)) = Some (int (card (set ts)))"
proof -
  from fit_derived(1)[OF assms(1,2)] obtain count where
    pc: "planned_count self (shape1 X) (effective_min_length self) = Some count"
    and ts0: "timestamps (state (fit train self X y)) =
            TsIntArray (sort (remdups
              (derived_lengths (shape1 X) (effective_min_length self) count)))"
    and nb0: "nb_classifiers (state (fit train self X y)) =
            Some (int (length (remdups
              (derived_lengths (shape1 X) (effective_min_length self) count))))"
    by blast
  define ds where "ds = derived_lengths (shape1 X) (effective_min_length self) count"
  have ts: "timestamps (state (fit train self X y)) = TsIntArray (sort (remdups ds))"
    unfolding ds_def by (rule ts0)
  have nb: "nb_classifiers (state (fit train self X y)) = Some (int (length (remdups ds)))"
    unfolding ds_def by (rule nb0)
  have c: "length (remdups ds) = card (set (sort (remdups ds)))"
    by (simp add: length_remdups_card_conv)
  have f: "set (sort (remdups ds))
      = set (spec_lengths (shape1 X) (effective_min_length self) count)"
    using assms(3) by (simp add: ds_def derived_lengths_floor spec_lengths_def)
  have "distinct (sort (remdups ds))" by simp
  then show ?thesis using pc ts nb c f by auto
qed

text \<open>
  The theorem at work: sampling ratio 1/2, \<^verbatim>\<open>min_length = 1\<close>, series of length 4: the
  count is 2 and the checkpoints are \<open>floor(3 * 1 / 2) + 1 = 2\<close> and \<open>floor(3 * 2 / 2) + 1 = 4\<close>.
\<close>

theorem fit_derived_checkpoints_witness:
  "timestamps (init TsNone (SrNum (1/2)) (Some 1) :: unit time_classifier) = TsNone
   \<and> raised (fit no_train (init TsNone (SrNum (1/2)) (Some 1)) [[0, 0, 0, 0]] [0]) = None
   \<and> effective_min_length (init TsNone (SrNum (1/2)) (Some 1) :: unit time_classifier)
        \<le> shape1 [[0, 0, 0, 0]]
   \<and> (\<exists>ts. timestamps (state (fit no_train (init TsNone (SrNum (1/2)) (Some 1)) [[0, 0, 0, 0]] [0]))
              = TsIntArray ts
          \<and> set ts = {2, 4}
          \<and> nb_classifiers (state (fit no_train (init TsNone (SrNum (1/2)) (Some 1)) [[0, 0, 0, 0]] [0]))
              = Some (int (card (set ts))))"
proof -
  have t: "timestamps (init TsNone (SrNum (1/2)) (Some 1) :: unit time_classifier) = TsNone"
    by (simp add: init_def)
  have r: "raised (fit no_train (init TsNone (SrNum (1/2)) (Some 1)) [[0, 0, 0, 0]] [0]) = None"
    by (simp add: fit_eval)
  have l: "effective_min_length (init TsNone (SrNum (1/2)) (Some 1) :: unit time_classifier)
        \<le> shape1 [[0, 0, 0, 0]]"
    by (simp add: init_def effective_min_length_def shape1_def)
  have p: "planned_count (init TsNone (SrNum (1/2)) (Some 1) :: unit time_classifier)
                (shape1 [[0, 0, 0, 0]])
                (effective_min_length (init TsNone (SrNum (1/2)) (Some 1) :: unit time_classifier))
           = Some 2"
    by (simp add: fit_eval)
  have d: "spec_lengths (shape1 [[0, 0, 0, 0]])
             (effective_min_length (init TsNone (SrNum (1/2)) (Some 1) :: unit time_classifier)) 2
           = [2, 4]"
    by (simp add: spec_lengths_def init_def effective_min_length_def shape1_def upto_rec1)
  show ?thesis
    using fit_derived_checkpoints[OF t r l] t r l by (auto simp: p d)
qed

subsection \<open>Rejected arguments\<close>

text \<open>
  Claim C8, as the code has it. \<^verbatim>\<open>fit\<close> raises for every invalid \<^verbatim>\<open>timestamps\<close>
  argument, and for every invalid \<^verbatim>\<open>sampling_ratio\<close> when no \<^verbatim>\<open>timestamps\<close> are given
  (with \<^verbatim>\<open>timestamps\<close> the ratio is ignored, not checked). The failed call trains no
  classifier and leaves \<^verbatim>\<open>classifiers\<close>, \<^verbatim>\<open>nb_classifiers\<close> and \<^verbatim>\<open>sampling_ratio\<close> as they
  were; \<^verbatim>\<open>max_length\<close>, \<^verbatim>\<open>min_length\<close>, \<^verbatim>\<open>classes_\<close> and \<^verbatim>\<open>class_prior\<close> have by then been
  assigned from the call's data, since lines 33--40 precede the checks.
\<close>

theorem fit_invalid_argument_raises:
  assumes "invalid_timestamps (timestamps self)
            \<or> (timestamps self = TsNone \<and> invalid_ratio (sampling_ratio self))"
  shows "raised (fit train self X y) \<noteq> None
       \<and> classifiers (state (fit train self X y)) = classifiers self
       \<and> nb_classifiers (state (fit train self X y)) = nb_classifiers self
       \<and> sampling_ratio (state (fit train self X y)) = sampling_ratio self
       \<and> max_length (state (fit train self X y)) = Some (shape1 X)
       \<and> min_length (state (fit train self X y)) = Some (effective_min_length self)
       \<and> classes' (state (fit train self X y)) = Some (np_unique y)
       \<and> class_prior (state (fit train self X y)) = Some (prior_of y)"
proof -
  define self' where "self' = self\<lparr>max_length := Some (shape1 X),
     min_length := Some (effective_min_length self),
     classes' := Some (np_unique y), class_prior := Some (prior_of y)\<rparr>"
  have f: "timestamps self' = timestamps self" "sampling_ratio self' = sampling_ratio self"
    "classifiers self' = classifiers self" "nb_classifiers self' = nb_classifiers self"
    "max_length self' = Some (shape1 X)" "min_length self' = Some (effective_min_length self)"
    "classes' self' = Some (np_unique y)" "class_prior self' = Some (prior_of y)"
    by (simp_all add: self'_def)
  define c where "c = check_config self' (shape1 X) (effective_min_length self)"
  have fit: "raised c \<noteq> None \<Longrightarrow> fit train self X y
      = c\<lparr>warned := (if min_length self = None then [No_min_length] else []) @ warned c\<rparr>"
    by (simp add: fit_def Let_def c_def self'_def)
  from assms have c: "raised c \<noteq> None \<and> classifiers (state c) = classifiers self'
       \<and> nb_classifiers (state c) = nb_classifiers self'
       \<and> sampling_ratio (state c) = sampling_ratio self'
       \<and> max_length (state c) = max_length self'
       \<and> min_length (state c) = min_length self'
       \<and> classes' (state c) = classes' self'
       \<and> class_prior (state c) = class_prior self'"
  proof
    assume i: "invalid_timestamps (timestamps self)"
    then have "c = check_timestamps self'"
      using invalid_not_None[OF i] by (simp add: c_def check_config_def f)
    then show ?thesis using check_timestamps_invalid[of self'] i by (simp add: f)
  next
    assume i: "timestamps self = TsNone \<and> invalid_ratio (sampling_ratio self)"
    then have "c = check_sampling_ratio self' (shape1 X) (effective_min_length self)"
      by (simp add: c_def check_config_def f)
    then show ?thesis using check_sampling_ratio_invalid[of self'] i by (simp add: f)
  qed
  then show ?thesis using fit by (simp add: f)
qed

text \<open>The theorem at work: \<^verbatim>\<open>timestamps=[2, 'a']\<close> on a fresh object.\<close>

theorem fit_invalid_argument_raises_witness:
  "(invalid_timestamps (timestamps (init (TsList [PyInt 2, PyOther]) SrNone None :: unit time_classifier))
     \<or> (timestamps (init (TsList [PyInt 2, PyOther]) SrNone None :: unit time_classifier) = TsNone
        \<and> invalid_ratio (sampling_ratio (init (TsList [PyInt 2, PyOther]) SrNone None :: unit time_classifier))))
   \<and> raised (fit no_train (init (TsList [PyInt 2, PyOther]) SrNone None) [[0, 0]] [0]) \<noteq> None
   \<and> classifiers (state (fit no_train (init (TsList [PyInt 2, PyOther]) SrNone None) [[0, 0]] [0])) = []
   \<and> max_length (state (fit no_train (init (TsList [PyInt 2, PyOther]) SrNone None) [[0, 0]] [0])) = Some 2"
proof -
  have i: "invalid_timestamps (timestamps (init (TsList [PyInt 2, PyOther]) SrNone None :: unit time_classifier))
     \<or> (timestamps (init (TsList [PyInt 2, PyOther]) SrNone None :: unit time_classifier) = TsNone
        \<and> invalid_ratio (sampling_ratio (init (TsList [PyInt 2, PyOther]) SrNone None :: unit time_classifier)))"
    by (simp add: init_def invalid_timestamps_def)
  show ?thesis
    using i fit_invalid_argument_raises[OF i, of no_train "[[0, 0]]" "[0]"]
    by (simp add: init_def shape1_def)
qed

text \<open>
  The claim as stated fails twice. \<^verbatim>\<open>timestamps=[-1]\<close> on a fresh object makes \<^verbatim>\<open>fit\<close>
  raise \<^verbatim>\<open>ValueError\<close>, yet \<^verbatim>\<open>max_length\<close> and \<^verbatim>\<open>classes_\<close>, unset before, are set
  afterwards. And \<^verbatim>\<open>sampling_ratio=5\<close> beside valid \<^verbatim>\<open>timestamps=[1]\<close> does not raise.
\<close>

theorem fit_failed_call_mutates:
  "raised (fit no_train (init (TsList [PyInt (- 1)]) SrNone None) [[0, 0]] [0]) = Some ValueError
   \<and> max_length (init (TsList [PyInt (- 1)]) SrNone None :: unit time_classifier) = None
   \<and> max_length (state (fit no_train (init (TsList [PyInt (- 1)]) SrNone None) [[0, 0]] [0])) = Some 2
   \<and> classes' (init (TsList [PyInt (- 1)]) SrNone None :: unit time_classifier) = None
   \<and> classes' (state (fit no_train (init (TsList [PyInt (- 1)]) SrNone None) [[0, 0]] [0])) = Some [0]
   \<and> raised (fit no_train (init (TsList [PyInt 1]) (SrNum 5) None) [[0, 0]] [0]) = None"
  by (simp add: fit_eval)

section \<open>Properties of the prediction operations\<close>

subsection \<open>Auxiliary facts\<close>


lemma py_min_key_None: "py_min_key key xs = None \<longleftrightarrow> xs = []"
  by (cases xs) (auto split: option.splits if_splits)

lemma py_min_key_Some:
  assumes "py_min_key key xs = Some m"
  shows "m \<in> set xs \<and> (\<forall>x \<in> set xs. key m \<le> key x)"
  using assms
proof (induction xs arbitrary: m)
  case Nil
  then show ?case by simp
next
  case (Cons x xs)
  show ?case
  proof (cases "py_min_key key xs")
    case None
    then have "xs = []" by (simp add: py_min_key_None)
    with Cons.prems None show ?thesis by simp
  next
    case (Some m')
    from Cons.IH[OF Some] have IH: "m' \<in> set xs" "\<forall>x \<in> set xs. key m' \<le> key x" by simp_all
    show ?thesis
    proof (cases "key m' < key x")
      case True
      with Cons.prems Some have "m = m'" by simp
      with IH True show ?thesis by auto
    next
      case False
      with Cons.prems Some have "m = x" by simp
      with IH False show ?thesis by fastforce
    qed
  qed
qed

lemma nearest_timestamp_Some:
  assumes "nearest_timestamp ts len = Some l"
  shows "l \<in> set ts \<and> l \<le> len \<and> (\<forall>t \<in> set ts. t \<le> len \<longrightarrow> t \<le> l)"
proof -
  from py_min_key_Some[OF assms[unfolded nearest_timestamp_def]]
  have "l \<in> set (filter (\<lambda>x. x \<le> len) ts)"
    and "\<forall>x \<in> set (filter (\<lambda>x. x \<le> len) ts). len - l \<le> len - x" by simp_all
  then show ?thesis by auto
qed

lemma nearest_timestamp_exists:
  assumes "t0 \<in> set ts" and "t0 \<le> len"
  shows "\<exists>l. nearest_timestamp ts len = Some l"
proof -
  have "filter (\<lambda>x. x \<le> len) ts \<noteq> []" using assms by (auto simp: filter_empty_conv)
  then show ?thesis
    unfolding nearest_timestamp_def using py_min_key_None[of "\<lambda>x. len - x"] by fastforce
qed

text \<open>A series shorter than every checkpoint is filed, whole, under its own length.\<close>

lemma place_serie_short:
  assumes "sorted ts" and "ts \<noteq> []" and "int (length serie) < hd ts"
  shows "place_serie ts serie = Inr (Some (int (length serie)), serie, False)
       \<and> int (length serie) \<notin> set ts"
proof -
  obtain t0 ts' where ts: "ts = t0 # ts'" using assms(2) by (cases ts) auto
  have "\<forall>t \<in> set ts. t0 \<le> t" using assms(1) ts by auto
  then have "int (length serie) \<notin> set ts" using assms(3) ts by auto
  then show ?thesis using assms(3) ts by (simp add: place_serie_def Let_def)
qed

text \<open>
  With positive checkpoints, a series whose length is no checkpoint but exceeds the first
  one is cut to the largest checkpoint not above its length.
\<close>

lemma place_serie_truncates:
  assumes "\<forall>t \<in> set ts. 0 < t" and "ts \<noteq> []"
    and "int (length serie) \<notin> set ts" and "hd ts < int (length serie)"
  shows "\<exists>l. place_serie ts serie = Inr (Some l, take (nat l) serie, True)
           \<and> l \<in> set ts \<and> l \<le> int (length serie)
           \<and> (\<forall>t \<in> set ts. t \<le> int (length serie) \<longrightarrow> t \<le> l)"
proof -
  obtain t0 ts' where ts: "ts = t0 # ts'" using assms(2) by (cases ts) auto
  have "t0 \<in> set ts" "t0 \<le> int (length serie)" using ts assms(4) by auto
  from nearest_timestamp_exists[OF this] obtain l where
    l: "nearest_timestamp ts (int (length serie)) = Some l" by blast
  note p = nearest_timestamp_Some[OF l]
  have "0 < l" using p assms(1) by blast
  then have "place_serie ts serie = Inr (Some l, take (nat l) serie, True)"
    using assms(3,4) l ts unfolding place_serie_def Let_def py_take_def by simp
  then show ?thesis using p by blast
qed

lemma grouped_by_length_warns_at_most_once:
  "grouped_by_length ts X = Inr (g, w) \<Longrightarrow> length w \<le> 1"
  by (auto simp: grouped_by_length_def split: sum.splits if_splits)

lemma dict_append_keeps:
  "(k', vs) \<in> set d \<Longrightarrow> \<exists>vs'. (k', vs') \<in> set (dict_append k v d) \<and> set vs \<subseteq> set vs'"
proof (induction k v d rule: dict_append.induct)
  case (1 k v)
  then show ?case by simp
next
  case (2 k v k1 vs1 d)
  show ?case
  proof (cases "k = k1")
    case True
    with "2.prems" show ?thesis by auto
  next
    case False
    show ?thesis
    proof (cases "(k', vs) = (k1, vs1)")
      case True
      with False show ?thesis by auto
    next
      case n: False
      with "2.prems" have "(k', vs) \<in> set d" by auto
      from "2.IH"[OF False this] False show ?thesis by auto
    qed
  qed
qed

lemma dict_append_adds:
  "\<exists>vs. (k, vs) \<in> set (dict_append k v d) \<and> v \<in> set vs"
  by (induction k v d rule: dict_append.induct) auto

lemma grouped_loop_keeps:
  assumes "grouped_loop ts X tr d = Inr (g, tr')" and "(k, vs) \<in> set d"
  shows "\<exists>vs'. (k, vs') \<in> set g \<and> set vs \<subseteq> set vs'"
  using assms
proof (induction X arbitrary: tr d vs)
  case Nil
  then show ?case by auto
next
  case (Cons s X)
  from Cons.prems(1) obtain k1 s1 t1 where p: "place_serie ts s = Inr (k1, s1, t1)"
    and r: "grouped_loop ts X (tr \<or> t1) (dict_append k1 s1 d) = Inr (g, tr')"
    by (auto split: sum.splits)
  from dict_append_keeps[OF Cons.prems(2)] obtain vs1 where
    v: "(k, vs1) \<in> set (dict_append k1 s1 d)" "set vs \<subseteq> set vs1" by blast
  from Cons.IH[OF r v(1)] v(2) show ?case by blast
qed

lemma grouped_loop_files:
  assumes "grouped_loop ts X tr d = Inr (g, tr')" and "s \<in> set X"
    and "place_serie ts s = Inr (k, s', t)"
  shows "\<exists>vs. (k, vs) \<in> set g \<and> s' \<in> set vs"
  using assms
proof (induction X arbitrary: tr d)
  case Nil
  then show ?case by simp
next
  case (Cons x X)
  from Cons.prems(1) obtain k1 s1 t1 where p: "place_serie ts x = Inr (k1, s1, t1)"
    and r: "grouped_loop ts X (tr \<or> t1) (dict_append k1 s1 d) = Inr (g, tr')"
    by (auto split: sum.splits)
  show ?case
  proof (cases "s = x")
    case True
    with p Cons.prems(3) have e: "k1 = k" "s1 = s'" by simp_all
    from dict_append_adds[of k s' d] obtain vs where
      "(k, vs) \<in> set (dict_append k s' d)" "s' \<in> set vs" by blast
    with grouped_loop_keeps[OF r[unfolded e]] show ?thesis by blast
  next
    case False
    with Cons.prems(2) have "s \<in> set X" by simp
    from Cons.IH[OF r this Cons.prems(3)] show ?thesis .
  qed
qed


lemma index_of_None: "index_of xs v = None \<longleftrightarrow> v \<notin> set xs"
  by (induction xs) auto

lemma place_serie_total: "ts \<noteq> [] \<Longrightarrow> \<exists>r. place_serie ts serie = Inr r"
  by (cases ts) (auto simp: place_serie_def Let_def split: option.splits)

lemma grouped_loop_total: "ts \<noteq> [] \<Longrightarrow> \<exists>r. grouped_loop ts X tr d = Inr r"
proof (induction X arbitrary: tr d)
  case Nil
  then show ?case by simp
next
  case (Cons s X)
  from place_serie_total[OF Cons.prems, of s] obtain k s' t
    where "place_serie ts s = Inr (k, s', t)" by (metis prod_cases3)
  then show ?case using Cons.IH[OF Cons.prems] by simp
qed

lemma grouped_by_length_total: "ts \<noteq> [] \<Longrightarrow> \<exists>g w. grouped_by_length ts X = Inr (g, w)"
  using grouped_loop_total[of ts X False "[]"]
  by (auto simp: grouped_by_length_def)

lemma grouped_by_length_files:
  assumes "grouped_by_length ts X = Inr (g, w)" and "s \<in> set X"
    and "place_serie ts s = Inr (k, s', t)"
  shows "\<exists>vs. (k, vs) \<in> set g \<and> s' \<in> set vs"
proof -
  from assms(1) obtain tr where "grouped_loop ts X False [] = Inr (g, tr)"
    by (auto simp: grouped_by_length_def split: sum.splits)
  from grouped_loop_files[OF this assms(2,3)] show ?thesis .
qed

lemma predict_proba_groups_raise:
  assumes "(Some l, vs) \<in> set g" and "l \<notin> set ts"
  shows "predict_proba_groups Raise_on_short clf ts prior g = Inl ValueError"
  using assms
proof (induction g)
  case Nil
  then show ?case by simp
next
  case (Cons a g)
  obtain k ss where a: "a = (k, ss)" by (cases a)
  show ?case
  proof (cases "predict_proba_group Raise_on_short clf ts prior a")
    case (Inl e)
    then have "e = ValueError"
      by (auto simp: predict_proba_group_def a split: option.splits)
    with Inl show ?thesis by simp
  next
    case (Inr r)
    moreover have "index_of ts l = None" using Cons.prems(2) by (simp add: index_of_None)
    ultimately have "a \<noteq> (Some l, vs)"
      by (auto simp: predict_proba_group_def)
    with Cons.prems have "(Some l, vs) \<in> set g" by auto
    from Cons.IH[OF this Cons.prems(2)] Inr show ?thesis by simp
  qed
qed

lemma predict_proba_groups_prior:
  assumes "(Some l, vs) \<in> set g" and "l \<notin> set ts"
  shows "\<exists>groups. predict_proba_groups Fall_back_to_prior clf ts prior g = Inr groups
           \<and> (Some l, map (\<lambda>_. map Some prior) vs) \<in> set groups"
  using assms
proof (induction g)
  case Nil
  then show ?case by simp
next
  case (Cons a g)
  obtain k ss where a: "a = (k, ss)" by (cases a)
  have tot1: "\<exists>r. predict_proba_group Fall_back_to_prior clf ts prior b = Inr r" for b
    by (cases b; cases "case fst b of None \<Rightarrow> None | Some l \<Rightarrow> index_of ts l")
      (simp_all add: predict_proba_group_def)
  then obtain r where r: "predict_proba_group Fall_back_to_prior clf ts prior a = Inr r"
    by blast
  have tot: "\<exists>rs. predict_proba_groups Fall_back_to_prior clf ts prior g' = Inr rs" for g'
  proof (induction g')
    case Nil
    then show ?case by simp
  next
    case (Cons b g')
    then show ?case using tot1[of b] by auto
  qed
  then obtain rs where rs: "predict_proba_groups Fall_back_to_prior clf ts prior g = Inr rs"
    by blast
  show ?case
  proof (cases "a = (Some l, vs)")
    case True
    then have "r = (Some l, map (\<lambda>_. map Some prior) vs)"
      using r index_of_None[THEN iffD2, OF Cons.prems(2)] by (simp add: predict_proba_group_def)
    then show ?thesis using r rs by simp
  next
    case False
    with Cons.prems have "(Some l, vs) \<in> set g" by auto
    from Cons.IH[OF this Cons.prems(2)] r rs show ?thesis by auto
  qed
qed

lemma argmax_groups_mem:
  assumes "argmax_groups groups = Inr res" and "(k, ps) \<in> set groups"
  shows "\<exists>cs. (k, cs) \<in> set res \<and> np_argmax_rows ps = Some cs"
  using assms
proof (induction groups arbitrary: res rule: argmax_groups.induct)
  case 1
  then show ?case by simp
next
  case (2 k1 ps1 gs)
  from "2.prems"(1) obtain cs1 rs where c: "np_argmax_rows ps1 = Some cs1"
    and g: "argmax_groups gs = Inr rs" and res: "res = (k1, cs1) # rs"
    by (auto split: option.splits sum.splits)
  show ?case
  proof (cases "(k, ps) = (k1, ps1)")
    case True
    then show ?thesis using c res by auto
  next
    case False
    with "2.prems"(2) have "(k, ps) \<in> set gs" by auto
    from "2.IH"[OF c g this] res show ?thesis by auto
  qed
qed

lemma np_argmax_rows_replicate:
  assumes "np_argmax_rows (map (\<lambda>_. p) vs) = Some cs"
  shows "length cs = length vs \<and> (\<forall>c \<in> set cs. np_argmax p = Some c)"
  using assms
proof (induction vs arbitrary: cs)
  case Nil
  then show ?case by (simp add: np_argmax_rows_def)
next
  case (Cons v vs)
  from Cons.prems obtain c cs' where c: "np_argmax p = Some c"
    and r: "np_argmax_rows (map (\<lambda>_. p) vs) = Some cs'" and cs: "cs = c # cs'"
    by (auto simp: np_argmax_rows_def split: option.splits)
  from Cons.IH[OF r] c cs show ?case by simp
qed


lemma grouped_loop_flag:
  assumes "grouped_loop ts X tr d = Inr (g, tr')"
  shows "tr \<longrightarrow> tr'"
    and "\<forall>s \<in> set X. \<forall>k s'. place_serie ts s = Inr (k, s', True) \<longrightarrow> tr'"
  using assms
proof (induction X arbitrary: tr d)
  case Nil
  { case 1 then show ?case by simp }
  { case 2 then show ?case by simp }
next
  case (Cons x X)
  { case 1
    from 1 obtain k1 s1 t1 where p: "place_serie ts x = Inr (k1, s1, t1)"
      and r: "grouped_loop ts X (tr \<or> t1) (dict_append k1 s1 d) = Inr (g, tr')"
      by (auto split: sum.splits)
    from Cons.IH(1)[OF r] show ?case by simp }
  { case 2
    from 2 obtain k1 s1 t1 where p: "place_serie ts x = Inr (k1, s1, t1)"
      and r: "grouped_loop ts X (tr \<or> t1) (dict_append k1 s1 d) = Inr (g, tr')"
      by (auto split: sum.splits)
    from Cons.IH(1)[OF r] Cons.IH(2)[OF r] p show ?case by auto }
qed

text \<open>
  With positive checkpoints, every series of a batch whose length is no checkpoint but
  exceeds the first one is filed, cut to the largest checkpoint not above its length,
  under that checkpoint, and the call warns exactly once.
\<close>

lemma grouped_by_length_truncates:
  assumes "\<forall>t \<in> set ts. 0 < t" and "ts \<noteq> []" and "s \<in> set X"
    and "int (length s) \<notin> set ts" and "hd ts < int (length s)"
  shows "\<exists>g l vs. grouped_by_length ts X = Inr (g, [Truncated_series])
           \<and> (Some l, vs) \<in> set g \<and> take (nat l) s \<in> set vs
           \<and> l \<in> set ts \<and> l \<le> int (length s)
           \<and> (\<forall>t \<in> set ts. t \<le> int (length s) \<longrightarrow> t \<le> l)"
proof -
  from place_serie_truncates[OF assms(1,2,4,5)] obtain l where
    l: "place_serie ts s = Inr (Some l, take (nat l) s, True)" "l \<in> set ts"
    "l \<le> int (length s)" "\<forall>t \<in> set ts. t \<le> int (length s) \<longrightarrow> t \<le> l" by blast
  from grouped_loop_total[OF assms(2), of X False "[]"] obtain g tr where
    g: "grouped_loop ts X False [] = Inr (g, tr)" by force
  from grouped_loop_flag(2)[OF g] assms(3) l(1) have tr by blast
  with g have gb: "grouped_by_length ts X = Inr (g, [Truncated_series])"
    by (simp add: grouped_by_length_def)
  from grouped_loop_files[OF g assms(3) l(1)] obtain vs where
    "(Some l, vs) \<in> set g" "take (nat l) s \<in> set vs" by blast
  with gb l show ?thesis by blast
qed

subsection \<open>Series shorter than the first checkpoint\<close>

text \<open>
  Claim C3. With the fitted (sorted, non-empty) checkpoints, a series shorter than the
  smallest one is filed by \<^verbatim>\<open>_grouped_by_length\<close> whole, under its own length, which is
  no checkpoint. On dispatch its group gets no classifier: \<^verbatim>\<open>predict_proba\<close> raises
  under the raising policy and returns the class prior for it under the fall-back
  policy, and \<^verbatim>\<open>predict\<close> then returns the \<^verbatim>\<open>argmax\<close> of the prior.
\<close>

theorem short_series_fall_back_or_raise:
  assumes "sorted ts" and "ts \<noteq> []" and "s \<in> set X" and "int (length s) < hd ts"
  shows "place_serie ts s = Inr (Some (int (length s)), s, False)
       \<and> int (length s) \<notin> set ts
       \<and> predict_proba Raise_on_short clf ts prior X = Inl ValueError
       \<and> predict Raise_on_short clf ts prior X = Inl ValueError
       \<and> (\<exists>groups ps. predict_proba Fall_back_to_prior clf ts prior X = Inr groups
            \<and> (Some (int (length s)), ps) \<in> set groups \<and> ps \<noteq> []
            \<and> (\<forall>p \<in> set ps. p = map Some prior))
       \<and> (\<forall>res. predict Fall_back_to_prior clf ts prior X = Inr res \<longrightarrow>
            (\<exists>cs. (Some (int (length s)), cs) \<in> set res \<and> cs \<noteq> []
               \<and> (\<forall>c \<in> set cs. np_argmax (map Some prior) = Some c)))"
proof -
  note p = place_serie_short[OF assms(1,2,4)]
  from grouped_by_length_total[OF assms(2), of X] obtain g w
    where g: "grouped_by_length ts X = Inr (g, w)" by blast
  from grouped_by_length_files[OF g assms(3) p[THEN conjunct1]] obtain vs where
    vs: "(Some (int (length s)), vs) \<in> set g" "s \<in> set vs" by blast
  have nin: "int (length s) \<notin> set ts" using p by simp
  have r1: "predict_proba Raise_on_short clf ts prior X = Inl ValueError"
    using g predict_proba_groups_raise[OF vs(1) nin] by (simp add: predict_proba_def)
  then have r2: "predict Raise_on_short clf ts prior X = Inl ValueError"
    by (simp add: predict_def)
  from predict_proba_groups_prior[OF vs(1) nin, of clf prior] obtain groups where
    gr: "predict_proba Fall_back_to_prior clf ts prior X = Inr groups"
    "(Some (int (length s)), map (\<lambda>_. map Some prior) vs) \<in> set groups"
    using g by (auto simp: predict_proba_def)
  have f1: "\<exists>groups ps. predict_proba Fall_back_to_prior clf ts prior X = Inr groups
            \<and> (Some (int (length s)), ps) \<in> set groups \<and> ps \<noteq> []
            \<and> (\<forall>p \<in> set ps. p = map Some prior)"
    using gr vs(2) by (intro exI[of _ groups] exI[of _ "map (\<lambda>_. map Some prior) vs"]) auto
  have f2: "\<exists>cs. (Some (int (length s)), cs) \<in> set res \<and> cs \<noteq> []
               \<and> (\<forall>c \<in> set cs. np_argmax (map Some prior) = Some c)"
    if "predict Fall_back_to_prior clf ts prior X = Inr res" for res
  proof -
    from that gr(1) have "argmax_groups groups = Inr res" by (simp add: predict_def)
    from argmax_groups_mem[OF this gr(2)] obtain cs where
      cs: "(Some (int (length s)), cs) \<in> set res"
      "np_argmax_rows (map (\<lambda>_. map Some prior) vs) = Some cs" by blast
    from np_argmax_rows_replicate[OF cs(2)] vs(2) cs(1) show ?thesis
      by (intro exI[of _ cs]) auto
  qed
  show ?thesis using p r1 r2 f1 f2 by blast
qed

text \<open>
  The theorem at work: checkpoints 2 and 5, class prior (1/4, 3/4), and a batch with a
  series of length 1 and one of length 2.
\<close>

theorem short_series_fall_back_or_raise_witness:
  "sorted [2, 5 :: int] \<and> [2, 5 :: int] \<noteq> [] \<and> [7] \<in> set [[7 :: real], [1, 2]]
   \<and> int (length [7 :: real]) < hd [2, 5]
   \<and> predict_proba Raise_on_short even_odds [2, 5] [1/4, 3/4] [[7], [1, 2]] = Inl ValueError
   \<and> predict_proba Fall_back_to_prior even_odds [2, 5] [1/4, 3/4] [[7], [1, 2]]
        = Inr [(Some 1, [[Some (1/4), Some (3/4)]]), (Some 2, [[Some (1/2), Some (1/2)]])]
   \<and> predict Fall_back_to_prior even_odds [2, 5] [1/4, 3/4] [[7], [1, 2]]
        = Inr [(Some 1, [1]), (Some 2, [0])]"
proof -
  have h: "sorted [2, 5 :: int]" "[2, 5 :: int] \<noteq> []" "[7] \<in> set [[7 :: real], [1, 2]]"
    "int (length [7 :: real]) < hd [2, 5]" by simp_all
  have e: "predict_proba Fall_back_to_prior even_odds [2, 5] [1/4, 3/4] [[7], [1, 2]]
        = Inr [(Some 1, [[Some (1/4), Some (3/4)]]), (Some 2, [[Some (1/2), Some (1/2)]])]"
    by (simp add: predict_proba_def grouped_by_length_def place_serie_def nearest_timestamp_def
        predict_proba_group_def even_odds_def)
  have p: "predict Fall_back_to_prior even_odds [2, 5] [1/4, 3/4] [[7], [1, 2]]
        = Inr [(Some 1, [1]), (Some 2, [0])]"
    by (simp add: predict_def e np_argmax_rows_def)
  from short_series_fall_back_or_raise[OF h, of even_odds "[1/4, 3/4]"] h e p show ?thesis by simp
qed

subsection \<open>Truncation to the nearest checkpoint\<close>

text \<open>
  Claim C6 holds when every checkpoint is positive (lemma \<open>grouped_by_length_truncates\<close>,
  and \<open>grouped_by_length_warns_at_most_once\<close> for the warning). \<^verbatim>\<open>fit\<close> also accepts the
  checkpoint 0, and there the test \<^verbatim>\<open>if length:\<close> of line 142 fails: with the
  checkpoints 0 and 5, a series of length 3 is filed under the key 0 with all its three
  values, and no warning is issued.
\<close>

theorem zero_checkpoint_not_truncated:
  "grouped_by_length [0, 5] [[1, 2, 3 :: real]] = Inr ([(Some 0, [[1, 2, 3]])], [])"
  by (simp add: grouped_by_length_def place_serie_def nearest_timestamp_def)

section \<open>Properties of the forwarded attributes\<close>



lemma setattr_never_returns:
  assumes "setattr a v self = Some r"
  shows "a \<noteq> Nb_classifiers \<and> a \<noteq> Sampling_ratio \<and> a \<noteq> Base_classifier \<and> a \<noteq> Min_length"
proof (rule setattr.raw_induct[where P = "\<lambda>a v self r. a \<noteq> Nb_classifiers \<and> a \<noteq> Sampling_ratio
    \<and> a \<noteq> Base_classifier \<and> a \<noteq> Min_length", OF _ assms])
  fix f :: "attribute \<Rightarrow> 'a \<Rightarrow> (attribute \<Rightarrow> 'a option) \<Rightarrow> (error + (attribute \<Rightarrow> 'a option)) option"
    and a v self r
  assume IH: "\<And>a v self r. f a v self = Some r \<Longrightarrow> a \<noteq> Nb_classifiers \<and> a \<noteq> Sampling_ratio
    \<and> a \<noteq> Base_classifier \<and> a \<noteq> Min_length"
  assume "(if a = Nb_classifiers then f Nb_classifiers v self
      else if a = Sampling_ratio then f Sampling_ratio v self
      else if a = Base_classifier then Option.bind (f Base_classifier v self) (\<lambda>r. Some r)
      else if a = Min_length then f Min_length v self
      else if a = Models_input_lengths then Some (Inl AttributeError)
      else Some (Inr (self(a := Some v)))) = Some r"
  then show "a \<noteq> Nb_classifiers \<and> a \<noteq> Sampling_ratio \<and> a \<noteq> Base_classifier \<and> a \<noteq> Min_length"
    using IH by (auto split: if_splits simp: bind_eq_Some_conv)
qed

lemma setattr_limited_forwarded:
  "setattr_limited n Nb_classifiers v self = Inl RecursionError"
  "setattr_limited n Sampling_ratio v self = Inl RecursionError"
  "setattr_limited n Base_classifier v self = Inl RecursionError"
  "setattr_limited n Min_length v self = Inl RecursionError"
  by (induction n) simp_all

text \<open>
  Claim C10. Assigning to \<^verbatim>\<open>nb_classifiers\<close>, \<^verbatim>\<open>sampling_ratio\<close>, \<^verbatim>\<open>base_classifier\<close> or
  \<^verbatim>\<open>min_length\<close> of an \<^verbatim>\<open>EarlyClassifier\<close> never returns, whatever the value and the
  object; under a recursion limit, whatever it is, the assignment ends in
  \<^verbatim>\<open>RecursionError\<close>.
\<close>

theorem forwarded_setattr_never_returns:
  "setattr Nb_classifiers v self = None \<and> setattr Sampling_ratio v self = None
   \<and> setattr Base_classifier v self = None \<and> setattr Min_length v self = None
   \<and> (\<forall>n. setattr_limited n Nb_classifiers v self = Inl RecursionError
         \<and> setattr_limited n Sampling_ratio v self = Inl RecursionError
         \<and> setattr_limited n Base_classifier v self = Inl RecursionError
         \<and> setattr_limited n Min_length v self = Inl RecursionError)"
  using setattr_never_returns[of _ v self] setattr_limited_forwarded[of _ v self]
  by (metis not_Some_eq)

section \<open>Properties of score and get\_post\<close>

subsection \<open>Auxiliary facts\<close>


lemma those_map_Some:
  "(\<And>x. x \<in> set xs \<Longrightarrow> f x = Some (g x)) \<Longrightarrow> those (map f xs) = Some (map g xs)"
  by (induction xs) simp_all

lemma those_nth:
  assumes "\<forall>i < length xs. \<exists>v. xs ! i = Some v"
  shows "\<exists>vs. those xs = Some vs \<and> length vs = length xs \<and> (\<forall>i < length xs. xs ! i = Some (vs ! i))"
  using assms
proof (induction xs)
  case Nil
  then show ?case by simp
next
  case (Cons x xs)
  from Cons.prems obtain v where v: "x = Some v" by fastforce
  from Cons.prems have "\<forall>i < length xs. \<exists>v. xs ! i = Some v" by fastforce
  from Cons.IH[OF this] obtain vs where vs: "those xs = Some vs" "length vs = length xs"
    "\<forall>i < length xs. xs ! i = Some (vs ! i)" by blast
  have "\<forall>i < length (x # xs). (x # xs) ! i = Some ((v # vs) ! i)"
    using v vs(3) by (auto simp: nth_Cons')
  then show ?case using v vs(1,2) by (intro exI[of _ "v # vs"]) simp
qed

lemma np_argmax_Some: "p \<noteq> [] \<Longrightarrow> \<exists>c. np_argmax p = Some c"
  by (cases p rule: np_argmax.cases) simp_all

lemma np_argmax_rows_Some:
  assumes "\<forall>p \<in> set ps. p \<noteq> []"
  shows "\<exists>cs. np_argmax_rows ps = Some cs \<and> length cs = length ps
           \<and> (\<forall>i < length ps. np_argmax (ps ! i) = Some (cs ! i))"
proof -
  have "\<forall>i < length (map np_argmax ps). \<exists>v. map np_argmax ps ! i = Some v"
    using assms np_argmax_Some by simp
  from those_nth[OF this] show ?thesis by (simp add: np_argmax_rows_def)
qed

lemma argmin_scan_least:
  assumes "bi < i" and "length pre = i" and "pre ! bi = bv" and "\<forall>j < i. bv \<le> pre ! j"
  shows "argmin_scan xs i bi bv < length (pre @ xs)
       \<and> (\<forall>j < length (pre @ xs). (pre @ xs) ! argmin_scan xs i bi bv \<le> (pre @ xs) ! j)"
  using assms
proof (induction xs i bi bv arbitrary: pre rule: argmin_scan.induct)
  case (1 i bi bv)
  then show ?case by simp
next
  case (2 x xs i bi bv)
  show ?case
  proof (cases "x < bv")
    case True
    have "argmin_scan xs (Suc i) i x < length ((pre @ [x]) @ xs)
       \<and> (\<forall>j < length ((pre @ [x]) @ xs).
            ((pre @ [x]) @ xs) ! argmin_scan xs (Suc i) i x \<le> ((pre @ [x]) @ xs) ! j)"
    proof (rule "2.IH"(1)[OF True])
      show "i < Suc i" by simp
      show "length (pre @ [x]) = Suc i" using "2.prems"(2) by simp
      show "(pre @ [x]) ! i = x" using "2.prems"(2) by (metis nth_append_length)
      show "\<forall>j < Suc i. x \<le> (pre @ [x]) ! j"
        using True "2.prems"(2,4) by (auto simp: nth_append less_Suc_eq)
    qed
    with True show ?thesis by simp
  next
    case False
    have "argmin_scan xs (Suc i) bi bv < length ((pre @ [x]) @ xs)
       \<and> (\<forall>j < length ((pre @ [x]) @ xs).
            ((pre @ [x]) @ xs) ! argmin_scan xs (Suc i) bi bv \<le> ((pre @ [x]) @ xs) ! j)"
    proof (rule "2.IH"(2)[OF False])
      show "bi < Suc i" using "2.prems"(1) by simp
      show "length (pre @ [x]) = Suc i" using "2.prems"(2) by simp
      show "(pre @ [x]) ! bi = bv" using "2.prems"(1,2,3) by (simp add: nth_append)
      show "\<forall>j < Suc i. bv \<le> (pre @ [x]) ! j"
        using False "2.prems"(2,4) by (auto simp: nth_append less_Suc_eq)
    qed
    with False show ?thesis by simp
  qed
qed

lemma np_argmin_least:
  assumes "xs \<noteq> []"
  shows "\<exists>k. np_argmin xs = Some k \<and> k < length xs \<and> (\<forall>j < length xs. xs ! k \<le> xs ! j)"
proof -
  obtain x xs' where xs: "xs = x # xs'" using assms by (cases xs) auto
  have "argmin_scan xs' 1 0 x < length ([x] @ xs')
       \<and> (\<forall>j < length ([x] @ xs'). ([x] @ xs') ! argmin_scan xs' 1 0 x \<le> ([x] @ xs') ! j)"
    by (rule argmin_scan_least) simp_all
  then show ?thesis using xs by simp
qed

lemma count_true_all:
  assumes "count_true bs = length bs" and "i < length bs"
  shows "bs ! i"
proof -
  have "filter (\<lambda>b. b) bs = bs"
    using assms(1) unfolding count_true_def by (metis length_filter_less order_less_irrefl filter_True)
  then have "\<forall>b \<in> set bs. b" by (metis filter_id_conv)
  then show ?thesis using nth_mem[OF assms(2)] by blast
qed

lemma count_true_zero:
  assumes "count_true bs = 0" and "i < length bs"
  shows "\<not> bs ! i"
proof -
  have "filter (\<lambda>b. b) bs = []" using assms(1) by (simp add: count_true_def)
  then have "\<forall>b \<in> set bs. \<not> b" by (simp add: filter_empty_conv)
  then show ?thesis using nth_mem[OF assms(2)] by blast
qed

lemma assign_where_nth:
  assumes "length sel = n" and "length new = n" and "length old = n"
  shows "length (assign_where sel new old) = n"
    and "\<forall>i < n. assign_where sel new old ! i = (if sel ! i then new ! i else old ! i)"
  using assms by (simp_all add: assign_where_def)

lemma lookup_costs_nth:
  assumes "length sel = n" and "length preds = n" and "length y = n" and "length old = n"
    and "\<forall>i < n. sel ! i \<longrightarrow> (\<exists>v. preds ! i = Some v)"
  shows "\<exists>f. lookup_costs cm sel preds y old = Some f \<and> length f = n
          \<and> (\<forall>i < n. f ! i = (if sel ! i then cm (the (preds ! i)) (y ! i) else old ! i))"
proof -
  let ?xs = "map (\<lambda>(m, p, c, f). if m then map_option (\<lambda>v. cm v c) p else Some f)
              (zip sel (zip preds (zip y old)))"
  have len: "length ?xs = n" using assms(1-4) by simp
  have nth: "?xs ! i = (if sel ! i then map_option (\<lambda>v. cm v (y ! i)) (preds ! i) else Some (old ! i))"
    if "i < n" for i
    using that assms(1-4) by simp
  have "\<forall>i < length ?xs. \<exists>v. ?xs ! i = Some v"
    using assms(5) nth len by auto
  from those_nth[OF this] obtain f where f: "those ?xs = Some f" "length f = length ?xs"
    "\<forall>i < length ?xs. ?xs ! i = Some (f ! i)" by blast
  have "f ! i = (if sel ! i then cm (the (preds ! i)) (y ! i) else old ! i)" if "i < n" for i
  proof -
    have "i < length ?xs" using that len by (simp only:)
    with f(3) have "?xs ! i = Some (f ! i)" by blast
    with nth[OF that] assms(5) that show ?thesis by (auto split: if_splits)
  qed
  then show ?thesis using f(1,2) len by (simp add: lookup_costs_def)
qed


lemma post_costs_nth:
  assumes "length (post_classes self X (models_input_lengths (chronological_classifiers self) ! t)) = n"
    and "length y = n" and "i < n"
  shows "post_costs self X y t ! i
       = cost_matrices self t
           (int (post_classes self X (models_input_lengths (chronological_classifiers self) ! t) ! i))
           (y ! i)"
  using assms by (simp add: post_costs_def)

text \<open>The write of line 312, read back through the reference.\<close>

lemma clear_where_deref:
  "deref (snd (clear_where hp r past)) (fst (clear_where hp r past))
     = map (\<lambda>(tr, p). if p then False else tr) (zip (deref hp r) past)"
  by (cases r) (simp_all add: clear_where_def deref_def Let_def)

lemma clear_where_lengths:
  assumes "length (deref hp r) = length past"
  shows "same_lengths hp (snd (clear_where hp r past))"
  using assms by (cases r) (simp_all add: clear_where_def deref_def Let_def same_lengths_def)

lemma same_lengths_refl: "same_lengths hp hp"
  by (simp add: same_lengths_def)

lemma same_lengths_trans:
  "same_lengths hp hp' \<Longrightarrow> same_lengths hp' hp'' \<Longrightarrow> same_lengths hp hp''"
  by (simp add: same_lengths_def)

lemma score_update_unfold:
  "score_update self y t l classes r st hp =
     (let hp' = (if count_true (past_trigger st) \<noteq> 0
                 then snd (clear_where hp r (past_trigger st)) else hp);
          msk = (if count_true (past_trigger st) \<noteq> 0
                 then map (\<lambda>(tr, p). if p then False else tr) (zip (deref hp r) (past_trigger st))
                 else deref hp r)
      in case lookup_costs (cost_matrices self t) msk classes y (all_f_star st) of
           None \<Rightarrow> (None, hp')
         | Some f \<Rightarrow>
             (Some \<lparr>past_trigger = map (\<lambda>(p, m). p \<or> m) (zip (past_trigger st) msk),
                    all_preds = assign_where msk classes (all_preds st),
                    all_t_star = assign_where msk (map (\<lambda>m. l) msk) (all_t_star st),
                    all_f_star = f\<rparr>, hp'))"
proof (cases "count_true (past_trigger st) \<noteq> 0")
  case True
  obtain r' hp' where c: "clear_where hp r (past_trigger st) = (r', hp')"
    by (cases "clear_where hp r (past_trigger st)")
  have d: "deref hp' r'
      = map (\<lambda>(tr, p). if p then False else tr) (zip (deref hp r) (past_trigger st))"
    using clear_where_deref[of hp r "past_trigger st"] c by simp
  have u: "score_update self y t l classes r st hp =
      (case lookup_costs (cost_matrices self t) (deref hp' r') classes y (all_f_star st) of
         None \<Rightarrow> (None, hp')
       | Some f \<Rightarrow>
           (Some \<lparr>past_trigger = map (\<lambda>(p, m). p \<or> m) (zip (past_trigger st) (deref hp' r')),
                  all_preds = assign_where (deref hp' r') classes (all_preds st),
                  all_t_star = assign_where (deref hp' r') (map (\<lambda>m. l) (deref hp' r'))
                                 (all_t_star st),
                  all_f_star = f\<rparr>, hp'))"
    using True c by (simp add: score_update_def Let_def)
  show ?thesis unfolding u d using True c by (simp add: Let_def)
next
  case False
  then show ?thesis by (simp add: score_update_def Let_def)
qed

lemma score_update_inv:
  assumes inv: "score_inv self X y st"
    and t: "t < length (models_input_lengths (chronological_classifiers self))"
    and l: "l = models_input_lengths (chronological_classifiers self) ! t"
    and len_y: "length y = length X"
    and cls: "length (post_classes self X l) = length X"
    and tr0: "length (deref hp r) = length X"
  shows "\<exists>st' hp'. score_update self y t l (map (\<lambda>c. Some (int c)) (post_classes self X l)) r st hp
              = (Some st', hp') \<and> score_inv self X y st' \<and> same_lengths hp hp'"
proof -
  let ?n = "length X"
  let ?C = "post_classes self X l"
  let ?cl = "map (\<lambda>c. Some (int c)) ?C"
  let ?past = "past_trigger st"
  define triggers where "triggers = deref hp r"
  have tr: "length triggers = length X" using tr0 by (simp add: triggers_def)
  define msk where "msk = (if count_true ?past \<noteq> 0
             then map (\<lambda>(tr, p). if p then False else tr) (zip triggers ?past)
             else triggers)"
  define hp' where "hp' = (if count_true ?past \<noteq> 0
                 then snd (clear_where hp r ?past) else hp)"
  have lens: "length ?past = ?n" "length (all_preds st) = ?n" "length (all_t_star st) = ?n"
    "length (all_f_star st) = ?n"
    using inv by (simp_all add: score_inv_def)
  have invi: "if ?past ! i
          then (\<exists>t < length (models_input_lengths (chronological_classifiers self)).
                  all_f_star st ! i = post_costs self X y t ! i)
               \<and> (\<exists>c. all_preds st ! i = Some (int c))
          else all_f_star st ! i = - 1 \<and> all_preds st ! i = Some (- 1)" if "i < ?n" for i
    using inv that unfolding score_inv_def by blast
  have mlen: "length msk = ?n" using tr lens(1) by (simp add: msk_def)
  have mnth: "msk ! i = (triggers ! i \<and> \<not> ?past ! i)" if "i < ?n" for i
  proof (cases "count_true ?past = 0")
    case True
    then have "\<not> ?past ! i" using count_true_zero[OF True] that lens(1) by simp
    with True show ?thesis by (simp add: msk_def)
  next
    case False
    then show ?thesis using that tr lens(1) by (simp add: msk_def)
  qed
  have cllen: "length ?cl = ?n" using cls by simp
  have "\<forall>i < ?n. msk ! i \<longrightarrow> (\<exists>v. ?cl ! i = Some v)" using cls by simp
  from lookup_costs_nth[OF mlen cllen len_y lens(4) this, of "cost_matrices self t"]
  obtain f where f: "lookup_costs (cost_matrices self t) msk ?cl y (all_f_star st) = Some f"
    "length f = ?n"
    "\<forall>i < ?n. f ! i = (if msk ! i then cost_matrices self t (the (?cl ! i)) (y ! i)
                         else all_f_star st ! i)"
    by blast
  define st' where "st' = \<lparr>past_trigger = map (\<lambda>(p, m). p \<or> m) (zip ?past msk),
                   all_preds = assign_where msk ?cl (all_preds st),
                   all_t_star = assign_where msk (map (\<lambda>m. l) msk) (all_t_star st),
                   all_f_star = f\<rparr>"
  have upd: "score_update self y t l ?cl r st hp = (Some st', hp')"
    using f(1)
    unfolding score_update_unfold triggers_def[symmetric] msk_def[symmetric] hp'_def[symmetric]
      st'_def Let_def
    by simp
  have sl: "same_lengths hp hp'"
    using clear_where_lengths[of hp r ?past] tr lens(1)
    by (simp add: hp'_def triggers_def same_lengths_refl)
  have fnth: "f ! i = (if msk ! i then post_costs self X y t ! i else all_f_star st ! i)"
    if "i < ?n" for i
    using f(3) that post_costs_nth[OF cls[unfolded l] len_y that] cls l by simp
  have pnth: "all_preds st' ! i = (if msk ! i then Some (int (?C ! i)) else all_preds st ! i)"
    if "i < ?n" for i
    using assign_where_nth(2)[OF mlen cllen lens(2)] that cls by (simp add: st'_def)
  have panth: "past_trigger st' ! i = (?past ! i \<or> msk ! i)" if "i < ?n" for i
    using that mlen lens(1) by (simp add: st'_def)
  have l1: "length (past_trigger st') = ?n" using mlen lens(1) by (simp add: st'_def)
  have l2: "length (all_preds st') = ?n"
    using assign_where_nth(1)[OF mlen cllen lens(2)] by (simp add: st'_def)
  have l3: "length (all_t_star st') = ?n"
    using assign_where_nth(1)[OF mlen _ lens(3), of "map (\<lambda>m. l) msk"] mlen by (simp add: st'_def)
  have l4: "length (all_f_star st') = ?n" using f(2) by (simp add: st'_def)
  have body: "if past_trigger st' ! i
          then (\<exists>t < length (models_input_lengths (chronological_classifiers self)).
                  all_f_star st' ! i = post_costs self X y t ! i)
               \<and> (\<exists>c. all_preds st' ! i = Some (int c))
          else all_f_star st' ! i = - 1 \<and> all_preds st' ! i = Some (- 1)" if i: "i < ?n" for i
  proof (cases "msk ! i")
    case True
    then have "past_trigger st' ! i" using panth[OF i] by simp
    moreover have "all_f_star st' ! i = post_costs self X y t ! i"
      using fnth[OF i] True by (simp add: st'_def)
    moreover have "all_preds st' ! i = Some (int (?C ! i))" using pnth[OF i] True by simp
    ultimately show ?thesis using t by auto
  next
    case False
    then have "past_trigger st' ! i = ?past ! i" using panth[OF i] by simp
    moreover have "all_f_star st' ! i = all_f_star st ! i"
      using fnth[OF i] False by (simp add: st'_def)
    moreover have "all_preds st' ! i = all_preds st ! i" using pnth[OF i] False by simp
    ultimately show ?thesis using invi[OF i] by simp
  qed
  have "score_inv self X y st'"
    unfolding score_inv_def using l1 l2 l3 l4 body by blast
  with upd sl show ?thesis by blast
qed


lemma post_costs_nonneg:
  assumes "\<And>t p c. 0 \<le> cost_matrices self t p c"
    and "length (post_classes self X (models_input_lengths (chronological_classifiers self) ! t)) = length X"
    and "length y = length X" and "i < length X"
  shows "0 \<le> post_costs self X y t ! i"
  using post_costs_nth[OF assms(2,3,4)] assms(1) by simp

lemma finalize_settles:
  assumes inv: "score_inv self X y st"
    and ne: "models_input_lengths (chronological_classifiers self) \<noteq> []"
    and l: "l = last (models_input_lengths (chronological_classifiers self))"
    and len_y: "length y = length X"
    and cls: "\<forall>t < length (models_input_lengths (chronological_classifiers self)).
        length (post_classes self X (models_input_lengths (chronological_classifiers self) ! t)) = length X"
    and nonneg: "\<And>t p c. 0 \<le> cost_matrices self t p c"
  shows "\<exists>st'. finalize self y (map (\<lambda>c. Some (int c)) (post_classes self X l)) l st = Some st'
           \<and> settled self X y (all_f_star st')"
proof -
  let ?n = "length X"
  let ?lens = "models_input_lengths (chronological_classifiers self)"
  let ?T = "length ?lens"
  let ?C = "post_classes self X l"
  let ?cl = "map (\<lambda>c. Some (int c)) ?C"
  have Tpos: "?T - 1 < ?T" using ne by simp
  have ll: "l = ?lens ! (?T - 1)" using l ne by (simp add: last_conv_nth)
  have clsl: "length ?C = ?n" using cls Tpos ll by simp
  have lens: "length (past_trigger st) = ?n" "length (all_preds st) = ?n"
    "length (all_t_star st) = ?n" "length (all_f_star st) = ?n"
    using inv by (simp_all add: score_inv_def)
  have invi: "if past_trigger st ! i
          then (\<exists>t < ?T. all_f_star st ! i = post_costs self X y t ! i)
               \<and> (\<exists>c. all_preds st ! i = Some (int c))
          else all_f_star st ! i = - 1 \<and> all_preds st ! i = Some (- 1)" if "i < ?n" for i
    using inv that unfolding score_inv_def by blast
  define preds where "preds = map (\<lambda>(p, c). case p of None \<Rightarrow> p | Some v \<Rightarrow> if v < 0 then c else p)
                    (zip (all_preds st) ?cl)"
  have plen: "length preds = ?n" using lens(2) clsl by (simp add: preds_def)
  have pnth: "preds ! i = (if past_trigger st ! i then all_preds st ! i else Some (int (?C ! i)))"
    if i: "i < ?n" for i
  proof (cases "past_trigger st ! i")
    case True
    with invi[OF i] obtain c where "all_preds st ! i = Some (int c)" by auto
    with True show ?thesis using i lens(2) clsl by (simp add: preds_def)
  next
    case False
    with invi[OF i] have "all_preds st ! i = Some (- 1)" by simp
    with False show ?thesis using i lens(2) clsl by (simp add: preds_def)
  qed
  have psome: "\<exists>v. preds ! i = Some v" if i: "i < ?n" for i
    using pnth[OF i] invi[OF i] by (cases "past_trigger st ! i") auto
  have "\<not> list_ex (\<lambda>p. p = None) preds"
  proof
    assume "list_ex (\<lambda>p. p = None) preds"
    then obtain i where "i < length preds" "preds ! i = None"
      by (auto simp: list_ex_iff in_set_conv_nth)
    with psome[of i] plen show False by fastforce
  qed
  then have sel: "(if list_ex (\<lambda>p. p = None) preds
               then map_option (\<lambda>m. map (\<lambda>p. case p of None \<Rightarrow> Some m | Some v \<Rightarrow> p) preds)
                      (majority_class (cc_class_prior (chronological_classifiers self)) y)
               else Some preds) = Some preds" by simp
  let ?msk = "map (\<lambda>f. f < 0) (all_f_star st)"
  have mlen: "length ?msk = ?n" using lens(4) by simp
  have "\<forall>i < ?n. ?msk ! i \<longrightarrow> (\<exists>v. preds ! i = Some v)" using psome by blast
  from lookup_costs_nth[OF mlen plen len_y lens(4) this, of "cost_matrices self (?T - 1)"]
  obtain f where f: "lookup_costs (cost_matrices self (?T - 1)) ?msk preds y (all_f_star st) = Some f"
    "length f = ?n"
    "\<forall>i < ?n. f ! i = (if ?msk ! i then cost_matrices self (?T - 1) (the (preds ! i)) (y ! i)
                         else all_f_star st ! i)"
    by blast
  define st' where "st' = st\<lparr>all_t_star := map (\<lambda>v. if v < 0 then l else v) (all_t_star st),
      all_preds := preds, all_f_star := f\<rparr>"
  have fin: "finalize self y ?cl l st = Some st'"
    unfolding finalize_def Let_def preds_def[symmetric] sel using f(1) by (simp add: st'_def)
  have "\<exists>t < ?T. f ! i = post_costs self X y t ! i" if i: "i < ?n" for i
  proof (cases "past_trigger st ! i")
    case True
    with invi[OF i] obtain t where t: "t < ?T" "all_f_star st ! i = post_costs self X y t ! i"
      by auto
    have "0 \<le> post_costs self X y t ! i"
      using post_costs_nonneg[OF nonneg _ len_y i] cls t(1) by simp
    then have "\<not> ?msk ! i" using t(2) i lens(4) by simp
    then have "f ! i = all_f_star st ! i" using f(3) i by simp
    with t show ?thesis by auto
  next
    case False
    with invi[OF i] have "all_f_star st ! i = - 1" by simp
    then have "?msk ! i" using i lens(4) by simp
    then have "f ! i = cost_matrices self (?T - 1) (the (preds ! i)) (y ! i)" using f(3) i by simp
    also have "\<dots> = cost_matrices self (?T - 1) (int (?C ! i)) (y ! i)"
      using pnth[OF i] False by simp
    also have "\<dots> = post_costs self X y (?T - 1) ! i"
      using post_costs_nth[where self = self and X = X and t = "?T - 1", OF _ len_y i] clsl ll
      by simp
    finally show ?thesis using Tpos by blast
  qed
  then have "settled self X y (all_f_star st')"
    using f(2) by (simp add: settled_def st'_def)
  with fin show ?thesis by blast
qed

lemma score_inv_all_triggered:
  assumes "score_inv self X y st" and "count_true (past_trigger st) = length X"
  shows "settled self X y (all_f_star st)"
proof -
  have len: "length (past_trigger st) = length X" "length (all_f_star st) = length X"
    using assms(1) by (simp_all add: score_inv_def)
  have "\<exists>t < length (models_input_lengths (chronological_classifiers self)).
      all_f_star st ! i = post_costs self X y t ! i" if i: "i < length X" for i
  proof -
    have "past_trigger st ! i" using count_true_all[of "past_trigger st" i] assms(2) len(1) i by simp
    then show ?thesis using assms(1) i unfolding score_inv_def by (metis (no_types, lifting))
  qed
  then show ?thesis using len(2) by (simp add: settled_def)
qed

lemma score_loop_settles:
  assumes rc: "require_classifiers (trigger_model self)"
    and agree: "steps_agree self hp0 X"
    and len_y: "length y = length X"
    and cls: "\<forall>t < length (models_input_lengths (chronological_classifiers self)).
        length (post_classes self X (models_input_lengths (chronological_classifiers self) ! t)) = length X"
    and nonneg: "\<And>t p c. 0 \<le> cost_matrices self t p c"
    and inv: "score_inv self X y st"
    and sl: "same_lengths hp0 hp"
    and idx: "\<forall>(t, l) \<in> set rest. t < length (models_input_lengths (chronological_classifiers self))
                \<and> l = models_input_lengths (chronological_classifiers self) ! t"
    and fin: "snd (last rest) = last (models_input_lengths (chronological_classifiers self))"
    and ne: "rest \<noteq> []"
  shows "\<exists>st' hp'. score_loop self X y rest st hp = (Some st', hp')
           \<and> settled self X y (all_f_star st')"
  using inv sl idx fin ne
proof (induction rest arbitrary: st hp)
  case Nil
  then show ?case by simp
next
  case (Cons a rest)
  let ?lens = "models_input_lengths (chronological_classifiers self)"
  obtain t l where a: "a = (t, l)" by (cases a)
  from Cons.prems(3) a have t: "t < length ?lens" and l: "l = ?lens ! t" by auto
  have lne: "?lens \<noteq> []" using t by auto
  from agree Cons.prems(2) t l obtain tr where
    step: "step_classes self hp X t l = Some (map (\<lambda>c. Some (int c)) (post_classes self X l), tr)"
    and trlen: "length (deref hp tr) = length X"
    unfolding steps_agree_def by blast
  have cl: "length (post_classes self X l) = length X" using cls t l by simp
  from score_update_inv[OF Cons.prems(1) t l len_y cl trlen] obtain st1 hp1 where
    upd: "score_update self y t l (map (\<lambda>c. Some (int c)) (post_classes self X l)) tr st hp
            = (Some st1, hp1)"
    and inv1: "score_inv self X y st1" and sl1: "same_lengths hp hp1" by blast
  have sl01: "same_lengths hp0 hp1" by (rule same_lengths_trans[OF Cons.prems(2) sl1])
  show ?case
  proof (cases "count_true (past_trigger st1) = length X")
    case True
    from score_inv_all_triggered[OF inv1 True] show ?thesis
      using rc step upd True a by simp
  next
    case False
    show ?thesis
    proof (cases "l = last ?lens")
      case True
      from finalize_settles[OF inv1 lne True len_y cls nonneg] show ?thesis
        using rc step upd False True a by auto
    next
      case nl: False
      have rne: "rest \<noteq> []"
      proof
        assume "rest = []"
        with Cons.prems(4) a have "l = last ?lens" by simp
        with nl show False by simp
      qed
      have i2: "\<forall>(t, l) \<in> set rest. t < length ?lens \<and> l = ?lens ! t"
        using Cons.prems(3) by simp
      have f2: "snd (last rest) = last ?lens" using Cons.prems(4) rne by simp
      from Cons.IH[OF inv1 sl01 i2 f2 rne] show ?thesis
        using rc step upd False nl a by simp
    qed
  qed
qed


lemma zip_upt_nth: "zip [0..<length xs] xs = map (\<lambda>i. (i, xs ! i)) [0..<length xs]"
  by (rule nth_equalityI) simp_all

lemma well_shaped_classes:
  assumes "well_shaped self X y"
    and "t < length (models_input_lengths (chronological_classifiers self))"
  shows "np_argmax_rows (cc_predict_proba (chronological_classifiers self)
            (map (py_take (models_input_lengths (chronological_classifiers self) ! t)) X))
          = Some (post_classes self X (models_input_lengths (chronological_classifiers self) ! t))
       \<and> length (post_classes self X (models_input_lengths (chronological_classifiers self) ! t))
          = length X"
proof -
  let ?l = "models_input_lengths (chronological_classifiers self) ! t"
  let ?P = "cc_predict_proba (chronological_classifiers self) (map (py_take ?l) X)"
  have mem: "?l \<in> set (models_input_lengths (chronological_classifiers self))"
    using assms(2) by simp
  from assms(1) mem have len: "length ?P = length X" and ne: "\<forall>p \<in> set ?P. p \<noteq> []"
    unfolding well_shaped_def list_all_iff by blast+
  from np_argmax_rows_Some[OF ne] len show ?thesis by (auto simp: post_classes_def)
qed

text \<open>
  The checkpoints agree for a trigger model that decides on the current probabilities of
  the ensemble itself, and for one that decides on a history whose classes are those of
  \<^verbatim>\<open>predict_proba\<close>.
\<close>

lemma current_probas_steps_agree:
  assumes ws: "well_shaped self X y" and cd: "classifier_driven self"
    and sh: "current_triggers_shaped self hp X"
  shows "steps_agree self hp X"
  unfolding steps_agree_def
proof (intro allI impI)
  fix hp' t
  assume s: "same_lengths hp hp'"
    and t: "t < length (models_input_lengths (chronological_classifiers self))"
  let ?l = "models_input_lengths (chronological_classifiers self) ! t"
  let ?P = "cc_predict_proba (chronological_classifiers self) (map (py_take ?l) X)"
  let ?tr = "fst (tm_predict (trigger_model self) hp' (map (py_take ?l) X) (Current ?P))"
  have mem: "?l \<in> set (models_input_lengths (chronological_classifiers self))"
    using t by simp
  from sh s mem have trlen: "length (deref hp' ?tr) = length X"
    unfolding current_triggers_shaped_def by blast
  note c = well_shaped_classes[OF ws t, THEN conjunct1]
  have "step_classes self hp' X t ?l = Some (map (\<lambda>c. Some (int c)) (post_classes self X ?l), ?tr)"
    using cd c
    by (simp add: step_classes_def ec_predict_def classifier_driven_def Let_def split: prod.splits)
  with trlen show "\<exists>tr. step_classes self hp' X t ?l
      = Some (map (\<lambda>c. Some (int c)) (post_classes self X ?l), tr)
      \<and> length (deref hp' tr) = length X"
    by blast
qed

lemma history_steps_agree:
  assumes hd: "history_driven self X" and sh: "past_triggers_shaped self hp X"
  shows "steps_agree self hp X"
  unfolding steps_agree_def
proof (intro allI impI)
  fix hp' t
  assume s: "same_lengths hp hp'"
    and t: "t < length (models_input_lengths (chronological_classifiers self))"
  let ?l = "models_input_lengths (chronological_classifiers self) ! t"
  let ?H = "cc_predict_past_proba (chronological_classifiers self) X"
  let ?tr = "fst (tm_predict (trigger_model self) hp' (map (py_take ?l) X)
               (Past (map (take (Suc t)) ?H)))"
  from sh s t have trlen: "length (deref hp' ?tr) = length X"
    unfolding past_triggers_shaped_def by blast
  from hd t have c: "past_classes ?H t = Some (post_classes self X ?l)"
    and rp: "require_past_probas (trigger_model self)"
    unfolding history_driven_def by blast+
  have "step_classes self hp' X t ?l = Some (map (\<lambda>c. Some (int c)) (post_classes self X ?l), ?tr)"
    using rp c by (simp add: step_classes_def Let_def)
  with trlen show "\<exists>tr. step_classes self hp' X t ?l
      = Some (map (\<lambda>c. Some (int c)) (post_classes self X ?l), tr)
      \<and> length (deref hp' tr) = length X"
    by blast
qed

lemma score_inv_initial:
  "score_inv self X y \<lparr>past_trigger = replicate (length X) False,
      all_preds = replicate (length X) (Some (- 1)),
      all_t_star = replicate (length X) (- 1), all_f_star = replicate (length X) (- 1)\<rparr>"
  by (simp add: score_inv_def)

lemma score_settled:
  assumes ws: "well_shaped self X y" and rc: "require_classifiers (trigger_model self)"
    and agree: "steps_agree self hp X"
    and nonneg: "\<And>t p c. 0 \<le> cost_matrices self t p c"
  shows "\<exists>r. fst (score self hp X y) = Some r \<and> settled self X y (f_star r)
           \<and> average_cost r = np_mean (f_star r)"
proof -
  let ?lens = "models_input_lengths (chronological_classifiers self)"
  let ?rest = "zip [0..<length ?lens] ?lens"
  from ws have len_y: "length y = length X" and ne: "?lens \<noteq> []"
    by (simp_all add: well_shaped_def)
  have cls: "\<forall>t < length ?lens. length (post_classes self X (?lens ! t)) = length X"
    using well_shaped_classes[OF ws] by blast
  have idx: "\<forall>(t, l) \<in> set ?rest. t < length ?lens \<and> l = ?lens ! t"
    by (auto simp: zip_upt_nth)
  have rne: "?rest \<noteq> []" using ne by (cases ?lens) (simp_all add: upt_conv_Cons del: upt_Suc)
  have "last ?rest = (length ?lens - 1, ?lens ! (length ?lens - 1))"
    using ne by (simp add: zip_upt_nth last_map del: upt_Suc) 
  then have fin: "snd (last ?rest) = last ?lens" using ne by (simp add: last_conv_nth)
  from score_loop_settles[OF rc agree len_y cls nonneg score_inv_initial same_lengths_refl
      idx fin rne]
  obtain st' hp' where "score_loop self X y ?rest \<lparr>past_trigger = replicate (length X) False,
      all_preds = replicate (length X) (Some (- 1)),
      all_t_star = replicate (length X) (- 1), all_f_star = replicate (length X) (- 1)\<rparr> hp
        = (Some st', hp')"
    "settled self X y (all_f_star st')" by blast
  then show ?thesis by (simp add: score_def Let_def)
qed

lemma get_post_least:
  assumes ws: "well_shaped self X y"
    and maj: "majority_class (cc_class_prior (chronological_classifiers self)) y \<noteq> None"
  shows "\<exists>g. get_post self X y = Some g \<and> length (f_post g) = length X
          \<and> (\<forall>i < length X. \<forall>t < length (models_input_lengths (chronological_classifiers self)).
                f_post g ! i \<le> post_costs self X y t ! i)"
proof -
  let ?lens = "models_input_lengths (chronological_classifiers self)"
  let ?T = "length ?lens"
  let ?n = "length X"
  from ws have len_y: "length y = ?n" and ne: "?lens \<noteq> []"
    by (simp_all add: well_shaped_def)
  let ?row = "\<lambda>t. (post_classes self X (?lens ! t), post_costs self X y t)"
  have row: "post_row self X y t (?lens ! t) = Some (?row t)" if "t < ?T" for t
    using well_shaped_classes[OF ws that] len_y maj
    by (auto simp: post_row_def post_costs_def)
  have rows: "those (map (\<lambda>(t, l). post_row self X y t l) (zip [0..<?T] ?lens))
      = Some (map ?row [0..<?T])"
    unfolding zip_upt_nth map_map
    by (rule those_map_Some) (simp add: row)
  have rne: "map ?row [0..<?T] \<noteq> []" using ne by simp
  define columns where "columns = map (\<lambda>i. map (\<lambda>row. row ! i) (map snd (map ?row [0..<?T]))) [0..<length y]"
  have clen: "length columns = ?n" using len_y by (simp add: columns_def)
  have cnth: "columns ! i = map (\<lambda>t. post_costs self X y t ! i) [0..<?T]" if "i < ?n" for i
    using that len_y by (simp add: columns_def comp_def)
  have "\<forall>i < length (map np_argmin columns). \<exists>v. map np_argmin columns ! i = Some v"
  proof (intro allI impI)
    fix i assume "i < length (map np_argmin columns)"
    then have i: "i < ?n" using clen by simp
    have "columns ! i \<noteq> []" using cnth[OF i] ne by simp
    from np_argmin_least[OF this] show "\<exists>v. map np_argmin columns ! i = Some v"
      using i clen by auto
  qed
  from those_nth[OF this] obtain idxs where idxs: "those (map np_argmin columns) = Some idxs"
    "length idxs = ?n" "\<forall>i < ?n. np_argmin (columns ! i) = Some (idxs ! i)"
    using clen by auto
  define g where "g = \<lparr>t_post = map (\<lambda>idx. ?lens ! idx) idxs,
                             f_post = map (\<lambda>(col, idx). col ! idx) (zip columns idxs),
                             pred_t_post = map (\<lambda>(i, idx). int (map fst (map ?row [0..<?T]) ! idx ! i))
                                             (zip [0..<length y] idxs)\<rparr>"
  have gp: "get_post self X y = Some g"
    by (simp only: get_post_def Let_def rows option.case rne if_False columns_def[symmetric]
          idxs(1) g_def)
  have flen: "length (f_post g) = ?n" using clen idxs(2) by (simp add: g_def)
  have "f_post g ! i \<le> post_costs self X y t ! i" if i: "i < ?n" and t: "t < ?T" for i t
  proof -
    have cne: "columns ! i \<noteq> []" using cnth[OF i] ne by simp
    from np_argmin_least[OF cne] idxs(3) i have
      k: "idxs ! i < length (columns ! i)"
      "\<forall>j < length (columns ! i). columns ! i ! (idxs ! i) \<le> columns ! i ! j"
      by auto
    have "f_post g ! i = columns ! i ! (idxs ! i)" using i clen idxs(2) by (simp add: g_def)
    also have "\<dots> \<le> columns ! i ! t" using k(2) t cnth[OF i] by simp
    also have "\<dots> = post_costs self X y t ! i" using cnth[OF i] t by simp
    finally show ?thesis .
  qed
  with gp flen show ?thesis by blast
qed


lemmas model_defs = eager_model_def eager_trigger_def two_step_ensemble_def lone_model_def
  lone_trigger_def stubborn_ensemble_def nan_model_def nan_ensemble_def patient_trigger_def
  skewed_lone_model_def history_model_def history_trigger_def keeping_model_def
  keeping_trigger_def kept_decisions_def no_arrays_def right_ensemble_def
  altering_trigger_def altered_model_def delay_costs_def

lemmas score_eval = score_def step_classes_def ec_predict_def score_update_def clear_where_def
  deref_def past_classes_def finalize_def score_alone_def lookup_costs_def assign_where_def
  count_true_def np_argmax_rows_def majority_class_def nth_opt_def np_unique_def np_mean_def
  py_take_def shape1_def Let_def

lemmas post_eval = get_post_def post_row_def np_argmax_rows_def majority_class_def nth_opt_def
  np_unique_def py_take_def Let_def

subsection \<open>Hindsight against the online trigger\<close>

text \<open>
  Claim C1, as the code has it. Let the trigger model use the classifiers
  (\<^verbatim>\<open>require_classifiers\<close>), and at every checkpoint let the classes that the loop of \<^verbatim>\<open>score\<close>
  takes be the ones that \<^verbatim>\<open>get_post\<close> computes there, with one trigger per series; let
  no cost be negative, let the shapes agree and let the majority class of line 377
  exist. Then \<^verbatim>\<open>score(X, y)\<close> and \<^verbatim>\<open>get_post(X, y)\<close> both return, the cost that \<^verbatim>\<open>get_post\<close>
  reports for a series is at most the one that \<^verbatim>\<open>score\<close> reports for it, and so is the
  mean. The checkpoints agree in this way for a trigger model that decides on the
  current probabilities of the ensemble itself (lemma \<open>current_probas_steps_agree\<close>) and
  for one that decides on a history with the same classes (lemma
  \<open>history_steps_agree\<close>).
\<close>

theorem get_post_cost_le_score_cost:
  assumes rc: "require_classifiers (trigger_model self)" and agree: "steps_agree self hp X"
    and ws: "well_shaped self X y"
    and nonneg: "\<And>t p c. 0 \<le> cost_matrices self t p c"
    and maj: "majority_class (cc_class_prior (chronological_classifiers self)) y \<noteq> None"
  shows "\<exists>r g. fst (score self hp X y) = Some r \<and> get_post self X y = Some g
           \<and> length (f_post g) = length X \<and> length (f_star r) = length X
           \<and> (\<forall>i < length X. f_post g ! i \<le> f_star r ! i)
           \<and> np_mean (f_post g) \<le> average_cost r"
proof -
  from score_settled[OF ws rc agree nonneg] obtain r where
    r: "fst (score self hp X y) = Some r" "settled self X y (f_star r)"
    "average_cost r = np_mean (f_star r)" by blast
  from get_post_least[OF ws maj] obtain g where
    g: "get_post self X y = Some g" "length (f_post g) = length X"
    "\<forall>i < length X. \<forall>t < length (models_input_lengths (chronological_classifiers self)).
        f_post g ! i \<le> post_costs self X y t ! i" by blast
  have rl: "length (f_star r) = length X" using r(2) by (simp add: settled_def)
  have le: "f_post g ! i \<le> f_star r ! i" if i: "i < length X" for i
  proof -
    from r(2) i obtain t where "t < length (models_input_lengths (chronological_classifiers self))"
      "f_star r ! i = post_costs self X y t ! i" unfolding settled_def by blast
    with g(3) i show ?thesis by simp
  qed
  have "sum_list (f_post g) \<le> sum_list (f_star r)"
    by (rule sum_list_mono2) (use g(2) rl le in auto)
  then have "np_mean (f_post g) \<le> np_mean (f_star r)"
    using g(2) rl by (simp add: np_mean_def divide_right_mono)
  then show ?thesis using r(1,3) g(1,2) rl le by auto
qed

text \<open>
  The theorem at work, on a trigger model that decides on the history: it fires at the
  first checkpoint, where the class is wrong (cost 1); in hindsight the second
  checkpoint is better (cost 1/4).
\<close>

theorem get_post_cost_le_score_cost_witness:
  "require_classifiers (trigger_model history_model)
   \<and> steps_agree history_model no_arrays [[0, 0]]
   \<and> well_shaped history_model [[0, 0]] [1]
   \<and> (\<forall>t p c. 0 \<le> cost_matrices history_model t p c)
   \<and> majority_class (cc_class_prior (chronological_classifiers history_model)) [1] \<noteq> None
   \<and> (\<exists>r g. fst (score history_model no_arrays [[0, 0]] [1]) = Some r
         \<and> get_post history_model [[0, 0]] [1] = Some g
         \<and> f_post g = [1/4] \<and> f_star r = [1]
         \<and> np_mean (f_post g) \<le> average_cost r)"
proof -
  have rc: "require_classifiers (trigger_model history_model)"
    by (simp add: model_defs)
  have hd: "history_driven history_model [[0, 0]]"
    by (simp add: history_driven_def model_defs past_classes_def post_classes_def
        np_argmax_rows_def py_take_def less_Suc_eq)
  have sh: "past_triggers_shaped history_model no_arrays [[0, 0]]"
    by (simp add: past_triggers_shaped_def model_defs deref_def)
  have agree: "steps_agree history_model no_arrays [[0, 0]]"
    by (rule history_steps_agree[OF hd sh])
  have ws: "well_shaped history_model [[0, 0]] [1]"
    by (simp add: well_shaped_def model_defs py_take_def)
  have nonneg: "\<And>t p c. 0 \<le> cost_matrices history_model t p c"
    by (simp add: model_defs)
  have maj: "majority_class (cc_class_prior (chronological_classifiers history_model)) [1] \<noteq> None"
    by (simp add: model_defs majority_class_def nth_opt_def np_unique_def)
  have ev: "map_option f_star (fst (score history_model no_arrays [[0, 0]] [1])) = Some [1]"
    "map_option f_post (get_post history_model [[0, 0]] [1]) = Some [1/4]"
    by (simp_all add: model_defs score_eval post_eval)
  from get_post_cost_le_score_cost[OF rc agree ws nonneg maj] obtain r g where
    rg: "fst (score history_model no_arrays [[0, 0]] [1]) = Some r"
    "get_post history_model [[0, 0]] [1] = Some g"
    "np_mean (f_post g) \<le> average_cost r" by blast
  have "f_post g = [1/4]" "f_star r = [1]" using ev rg(1,2) by simp_all
  with rg rc agree ws nonneg maj show ?thesis by blast
qed

text \<open>
  The claim as stated fails where \<^verbatim>\<open>score\<close> and \<^verbatim>\<open>get_post\<close> work with different classes.
  A trigger model that works without the classifiers predicts class 1 at the first
  checkpoint, rightly (cost 0), while the ensemble, on which \<^verbatim>\<open>get_post\<close> relies, favours
  class 0 at both checkpoints (cost 1 at best). And a trigger model that uses the
  classifiers but replaces the ensemble fires at the first checkpoint on the new
  ensemble's class 1 (cost 0), while \<^verbatim>\<open>get_post\<close> asks the old ensemble (cost 1 at best).
\<close>

theorem lone_trigger_beats_get_post:
  "map_option average_cost (fst (score lone_model no_arrays [[0, 0]] [1])) = Some 0
   \<and> map_option f_post (get_post lone_model [[0, 0]] [1]) = Some [1]
   \<and> require_classifiers (trigger_model altered_model)
   \<and> map_option average_cost (fst (score altered_model no_arrays [[0, 0]] [1])) = Some 0
   \<and> map_option f_post (get_post altered_model [[0, 0]] [1]) = Some [1]
   \<and> np_mean [1] = 1"
  by (simp add: model_defs score_eval post_eval)

subsection \<open>Probabilities that are all nan\<close>

text \<open>
  Claim C7 fails on the code. With probabilities that are all \<^verbatim>\<open>nan\<close> and a trigger
  that never fires, the two series are stopped at the last checkpoint 2, as claimed,
  but their prediction is class 0, the \<^verbatim>\<open>argmax\<close> of a \<^verbatim>\<open>nan\<close> vector, and not the
  majority class 1: \<^verbatim>\<open>classes\<close> holds integers, so the \<^verbatim>\<open>nan\<close> test of line 331 never
  holds.
\<close>

theorem all_nan_predicts_first_class:
  "map_option pred_t_star (fst (score nan_model no_arrays [[0, 0], [0, 0]] [0, 1]))
      = Some [Some 0, Some 0]
   \<and> map_option t_star (fst (score nan_model no_arrays [[0, 0], [0, 0]] [0, 1])) = Some [2, 2]
   \<and> majority_class (cc_class_prior (chronological_classifiers nan_model)) [0, 1] = Some 1"
  by (simp add: model_defs score_eval)

text \<open>
  For a trigger model that works without the classifiers, line 293 computes the
  majority class at once, from the labels of the call: with the prior (1/5, 4/5) and
  the labels \<^verbatim>\<open>[0]\<close>, \<^verbatim>\<open>np.unique(y)\<close> has one entry, index 1 is out of range and
  \<^verbatim>\<open>score\<close> raises.
\<close>

lemma majority_class_needs_every_label:
  "majority_class (cc_class_prior (chronological_classifiers skewed_lone_model)) [0] = None
   \<and> fst (score skewed_lone_model no_arrays [[0, 0]] [0]) = None"
  by (simp add: model_defs score_eval)

subsection \<open>Two calls of score in succession\<close>

text \<open>
  \<^verbatim>\<open>score\<close> changes nothing when the triggers it receives are arrays built for the call:
  the store is as before, so a second call on the same data returns the same.
\<close>

lemma step_classes_fresh:
  assumes "returns_fresh (trigger_model self)" and "require_classifiers (trigger_model self)"
    and "step_classes self hp X t l = Some (classes, tr)"
  shows "\<exists>bs. tr = Fresh bs"
proof (cases "require_past_probas (trigger_model self)")
  case True
  then have "tr = fst (tm_predict (trigger_model self) hp (map (py_take l) X)
      (Past (map (take (Suc t)) (cc_predict_past_proba (chronological_classifiers self) X))))"
    using assms(3) by (auto simp: step_classes_def Let_def split: option.splits)
  then show ?thesis using assms(1) unfolding returns_fresh_def by metis
next
  case False
  let ?cc = "if alter_classifiers (trigger_model self)
             then new_chronological_classifiers self else chronological_classifiers self"
  have "tr = fst (tm_predict (trigger_model self) hp (map (py_take l) X)
      (Current (cc_predict_proba ?cc (map (py_take l) X))))"
    using assms(2,3) False
    by (auto simp: step_classes_def ec_predict_def Let_def split: option.splits prod.splits)
  then show ?thesis using assms(1) unfolding returns_fresh_def by metis
qed

lemma score_update_fresh: "snd (score_update self y t l classes (Fresh bs) st hp) = hp"
  by (simp add: score_update_unfold clear_where_def Let_def split: option.splits)

lemma score_loop_fresh:
  assumes "returns_fresh (trigger_model self)"
  shows "snd (score_loop self X y rest st hp) = hp"
proof (induction rest arbitrary: st hp)
  case Nil
  then show ?case by simp
next
  case (Cons a rest)
  obtain t l where a: "a = (t, l)" by (cases a)
  show ?case
  proof (cases "require_classifiers (trigger_model self)")
    case False
    then show ?thesis using a by simp
  next
    case rc: True
    show ?thesis
    proof (cases "step_classes self hp X t l")
      case None
      then show ?thesis using a rc by simp
    next
      case (Some ct)
      obtain classes tr where ct: "ct = (classes, tr)" by (cases ct)
      from step_classes_fresh[OF assms rc Some[unfolded ct]] obtain bs where
        tr: "tr = Fresh bs" by blast
      obtain r hp' where u: "score_update self y t l classes (Fresh bs) st hp = (r, hp')"
        by (cases "score_update self y t l classes (Fresh bs) st hp")
      have hp': "hp' = hp" using score_update_fresh[of self y t l classes bs st hp] u by simp
      show ?thesis
        using a rc Some ct tr u hp' Cons.IH by (cases r) simp_all
    qed
  qed
qed

lemma score_fresh_store:
  assumes "returns_fresh (trigger_model self)"
  shows "snd (score self hp X y) = hp"
proof -
  let ?lens = "models_input_lengths (chronological_classifiers self)"
  let ?st0 = "\<lparr>past_trigger = replicate (length X) False,
      all_preds = replicate (length X) (Some (- 1)),
      all_t_star = replicate (length X) (- 1), all_f_star = replicate (length X) (- 1)\<rparr>"
  obtain r hp' where u: "score_loop self X y (zip [0..<length ?lens] ?lens) ?st0 hp = (r, hp')"
    by (cases "score_loop self X y (zip [0..<length ?lens] ?lens) ?st0 hp")
  have "hp' = hp"
    using score_loop_fresh[OF assms, of X y "zip [0..<length ?lens] ?lens" ?st0 hp] u by simp
  then show ?thesis using u by (cases r) (simp_all add: score_def Let_def)
qed

lemma score_fresh_repeatable:
  assumes "returns_fresh (trigger_model self)"
  shows "score self (snd (score self hp X y)) X y = score self hp X y"
  by (simp add: score_fresh_store[OF assms])

lemma eager_model_fresh: "returns_fresh (trigger_model eager_model)"
  by (simp add: returns_fresh_def model_defs)


end
